theory Spec2Isabelle
  imports Main "HOL-Library.AList"
begin

section \<open>Python values and exceptions\<close>

text \<open>
  The values the program handles at run time: what \<^verbatim>\<open>json.loads\<close> returns, and the raw
  text of a response body that is not JSON (a Python \<^verbatim>\<open>str\<close>, here \<open>JStr\<close>). \<open>JNull\<close> is
  Python's \<^verbatim>\<open>None\<close>. A dict is an association list in insertion order with distinct
  keys; numbers are integers.
\<close>

datatype json =
    JNull
  | JBool bool
  | JNum int
  | JStr string
  | JArr "json list"
  | JObj "(string \<times> json) list"

text \<open>A cell of a CSV record as \<^verbatim>\<open>csv.DictReader\<close> delivers it: a string, \<^verbatim>\<open>None\<close> for a
  short row (\<^verbatim>\<open>restval\<close>), or the list of surplus values stored under the key \<^verbatim>\<open>None\<close>
  (\<^verbatim>\<open>restkey\<close>).\<close>

datatype cell = Str string | NoneCell | Rest "string list"

text \<open>One record of the CSV: the dict of one row, keys in header order. The key is
  \<^verbatim>\<open>None\<close> for the surplus values of a row longer than the header.\<close>

type_synonym row = "(string option \<times> cell) list"

record ArchiveRequest =
  start_date_time :: cell
  end_date_time :: cell
  location :: cell
  format :: cell
  units :: cell
  results_location :: cell

text \<open>The body of an HTTP response, by what \<^verbatim>\<open>read_response_body\<close> can make of its bytes:
  not valid UTF-8, empty, the text of a JSON document (given by its value), or other text.\<close>

datatype content = Undecodable | Empty | JsonText json | PlainText string

record response =
  status_code :: int
  reason :: string
  headers :: "(string \<times> string) list"
  content :: content

datatype error =
    HTTPError response
  | KeyError string
  | TypeError
  | ValueError
  | AttributeError
  | IndexError
  | UnicodeDecodeError

section \<open>Header normalisation and request construction\<close>

text \<open>\<^verbatim>\<open>str.lower\<close> on ASCII letters; every other character is left as it is.\<close>

definition lower_char :: "char \<Rightarrow> char" where
  "lower_char c =
     (let n = (of_char c :: nat) in if 65 \<le> n \<and> n \<le> 90 then char_of (n + 32) else c)"

definition lower :: "string \<Rightarrow> string" where
  "lower s = map lower_char s"

text \<open>\<^verbatim>\<open>s.replace(c, '')\<close> for a single character \<open>c\<close>.\<close>

definition remove_char :: "char \<Rightarrow> string \<Rightarrow> string" where
  "remove_char c s = filter (\<lambda>d. d \<noteq> c) s"

definition strip_separators :: "string \<Rightarrow> string" where
  "strip_separators key =
     remove_char (CHR '' '') (remove_char (CHR ''-'') (remove_char (CHR ''_'') (lower key)))"

definition key_table :: "(string \<times> string) list" where
  "key_table =
     [(''startdatetime'', ''start_date_time''),
      (''enddatetime'', ''end_date_time''),
      (''resultslocation'', ''results_location'')]"

definition normalize_key :: "string \<Rightarrow> string" where
  "normalize_key key =
     (let key' = strip_separators key
      in case map_of key_table key' of Some v \<Rightarrow> v | None \<Rightarrow> key')"

text \<open>The field names of the \<^verbatim>\<open>ArchiveRequest\<close> named tuple.\<close>

definition field_names :: "string list" where
  "field_names =
     [''start_date_time'', ''end_date_time'', ''location'', ''format'', ''units'',
      ''results_location'']"

text \<open>The loop of \<^verbatim>\<open>to_request\<close>: \<^verbatim>\<open>normalized_row[normalize_key(k)] = v\<close> for every
  item of the row. A later item replaces the value of an earlier one with the same
  normalised key. \<^verbatim>\<open>normalize_key(None)\<close> raises (\<^verbatim>\<open>None\<close> has no \<^verbatim>\<open>lower\<close>).\<close>

fun normalize_row :: "row \<Rightarrow> (string \<times> cell) list \<Rightarrow> error + (string \<times> cell) list" where
  "normalize_row [] acc = Inr acc"
| "normalize_row ((None, v) # rest) acc = Inl AttributeError"
| "normalize_row ((Some k, v) # rest) acc =
     normalize_row rest (AList.update (normalize_key k) v acc)"

text \<open>\<^verbatim>\<open>ArchiveRequest(**kwargs)\<close>: the constructor of the named tuple raises
  \<^verbatim>\<open>TypeError\<close> for an unexpected keyword and for a missing field.\<close>

definition new_ArchiveRequest :: "(string \<times> cell) list \<Rightarrow> error + ArchiveRequest" where
  "new_ArchiveRequest kwargs =
     (if \<not> list_all (\<lambda>(k, v). k \<in> set field_names) kwargs then Inl TypeError
      else case (map_of kwargs ''start_date_time'', map_of kwargs ''end_date_time'',
                 map_of kwargs ''location'', map_of kwargs ''format'',
                 map_of kwargs ''units'', map_of kwargs ''results_location'') of
             (Some a, Some b, Some c, Some d, Some e, Some f) \<Rightarrow>
               Inr \<lparr>start_date_time = a, end_date_time = b, location = c, format = d,
                    units = e, results_location = f\<rparr>
           | _ \<Rightarrow> Inl TypeError)"

definition to_request :: "row \<Rightarrow> error + ArchiveRequest" where
  "to_request row =
     (case normalize_row row [] of
        Inl e \<Rightarrow> Inl e
      | Inr normalized_row \<Rightarrow> new_ArchiveRequest normalized_row)"

section \<open>The remote service and the observable behaviour\<close>

text \<open>
  The two calls the program makes: \<^verbatim>\<open>requests.post\<close> on the archive URL with the API key and
  the request, and \<^verbatim>\<open>requests.get\<close> on the activity URL with the API key and a job id.
\<close>

datatype call = Post string ArchiveRequest | Get string json

text \<open>
  What the program does that can be seen from outside, in order: every HTTP exchange with
  the response it got, every \<^verbatim>\<open>time.sleep\<close> with its number of seconds, and every line it
  prints (the notices of \<^verbatim>\<open>notify_job_submitted\<close>, \<^verbatim>\<open>notify_job_complete\<close>,
  \<^verbatim>\<open>notify_job_errored\<close>, \<^verbatim>\<open>handle_error\<close> and the final tally), by the values the line
  is formatted from.
\<close>

datatype event =
    Request call response
  | Sleep int
  | Submitted json nat
  | Completed json json json
  | Errored json json
  | ErrorReport int string json
  | Tally nat nat

text \<open>The state of the world: how many HTTP calls have been made, and the events so far.\<close>

record world =
  calls :: nat
  trace :: "event list"

text \<open>The remote service answers every call; its answer may depend on the call and on
  how many calls came before it. (Failures of the connection itself are not modelled.)\<close>

type_synonym remote = "nat \<Rightarrow> call \<Rightarrow> response"

definition emit :: "event \<Rightarrow> world \<Rightarrow> world" where
  "emit ev w = w\<lparr>trace := trace w @ [ev]\<rparr>"

definition send :: "remote \<Rightarrow> call \<Rightarrow> world \<Rightarrow> response \<times> world" where
  "send srv c w =
     (let r = srv (calls w) c
      in (r, \<lparr>calls = Suc (calls w), trace = trace w @ [Request c r]\<rparr>))"

text \<open>\<^verbatim>\<open>Response.raise_for_status\<close> of the requests library raises \<^verbatim>\<open>HTTPError\<close> exactly
  for the status codes 400 to 599.\<close>

definition raise_for_status :: "response \<Rightarrow> error + unit" where
  "raise_for_status r =
     (if 400 \<le> status_code r \<and> status_code r < 600 then Inl (HTTPError r) else Inr ())"

definition read_response_body :: "response \<Rightarrow> error + json" where
  "read_response_body r =
     (case content r of
        Undecodable \<Rightarrow> Inl UnicodeDecodeError
      | Empty \<Rightarrow> Inr JNull
      | JsonText j \<Rightarrow> Inr j
      | PlainText s \<Rightarrow> Inr (JStr s))"

text \<open>\<^verbatim>\<open>v[key]\<close> for a string key: only a dict can be indexed by a string.\<close>

definition subscript :: "json \<Rightarrow> string \<Rightarrow> error + json" where
  "subscript v key =
     (case v of
        JObj kvs \<Rightarrow> (case map_of kvs key of Some x \<Rightarrow> Inr x | None \<Rightarrow> Inl (KeyError key))
      | _ \<Rightarrow> Inl TypeError)"

text \<open>\<^verbatim>\<open>v.get(key, default)\<close>: only a dict has the method.\<close>

definition dict_get :: "json \<Rightarrow> string \<Rightarrow> json \<Rightarrow> error + json" where
  "dict_get v key dflt =
     (case v of
        JObj kvs \<Rightarrow> (case map_of kvs key of Some x \<Rightarrow> Inr x | None \<Rightarrow> Inr dflt)
      | _ \<Rightarrow> Inl AttributeError)"

text \<open>\<^verbatim>\<open>response.headers.get(name, default)\<close>: the header names of a response compare
  without regard to case.\<close>

definition headers_get :: "(string \<times> string) list \<Rightarrow> string \<Rightarrow> string \<Rightarrow> string" where
  "headers_get hs name dflt =
     (case map_of (map (\<lambda>(k, v). (lower k, v)) hs) (lower name) of
        Some v \<Rightarrow> v
      | None \<Rightarrow> dflt)"

subsection \<open>\<^verbatim>\<open>int\<close> of a string, and \<^verbatim>\<open>time.sleep\<close>\<close>

text \<open>\<^verbatim>\<open>int(s)\<close> in base ten: white space around the number is skipped, one sign is
  allowed, and single underscores may separate digits. Anything else raises
  \<^verbatim>\<open>ValueError\<close> (here \<open>None\<close>).\<close>

definition is_space :: "char \<Rightarrow> bool" where
  "is_space c \<longleftrightarrow> (of_char c :: nat) \<in> {9, 10, 11, 12, 13, 32, 133, 160}"

definition is_digit :: "char \<Rightarrow> bool" where
  "is_digit c \<longleftrightarrow> 48 \<le> (of_char c :: nat) \<and> (of_char c :: nat) \<le> 57"

definition strip :: "string \<Rightarrow> string" where
  "strip s = rev (dropWhile is_space (rev (dropWhile is_space s)))"

fun digits :: "nat \<Rightarrow> bool \<Rightarrow> string \<Rightarrow> nat option" where
  "digits acc after_underscore [] = (if after_underscore then None else Some acc)"
| "digits acc after_underscore (c # cs) =
     (if is_digit c then digits (10 * acc + (of_char c - 48)) False cs
      else if c = CHR ''_'' \<and> \<not> after_underscore then digits acc True cs
      else None)"

definition unsigned :: "string \<Rightarrow> nat option" where
  "unsigned s = (case s of [] \<Rightarrow> None | c # cs \<Rightarrow> if is_digit c then digits 0 False s else None)"

definition py_int :: "string \<Rightarrow> int option" where
  "py_int s =
     (case strip s of
        [] \<Rightarrow> None
      | c # cs \<Rightarrow>
          if c = CHR ''-'' then map_option (\<lambda>n. - int n) (unsigned cs)
          else if c = CHR ''+'' then map_option int (unsigned cs)
          else map_option int (unsigned (c # cs)))"

text \<open>\<^verbatim>\<open>time.sleep(n)\<close> raises \<^verbatim>\<open>ValueError\<close> for a negative number of seconds.\<close>

definition sleep :: "int \<Rightarrow> world \<Rightarrow> (error + unit) \<times> world" where
  "sleep n w = (if n < 0 then (Inl ValueError, w) else (Inr (), emit (Sleep n) w))"

section \<open>The archive client\<close>

definition post :: "remote \<Rightarrow> string \<Rightarrow> ArchiveRequest \<Rightarrow> world \<Rightarrow> (error + json) \<times> world" where
  "post srv api_key req w =
     (let (r, w1) = send srv (Post api_key req) w
      in case raise_for_status r of
           Inl e \<Rightarrow> (Inl e, w1)
         | Inr _ \<Rightarrow>
             (case read_response_body r of
                Inl e \<Rightarrow> (Inl e, w1)
              | Inr body \<Rightarrow> (subscript body ''job'', w1)))"

definition get_status :: "remote \<Rightarrow> string \<Rightarrow> json \<Rightarrow> world \<Rightarrow> (error + json) \<times> world" where
  "get_status srv api_key job_id w =
     (let (r, w1) = send srv (Get api_key job_id) w
      in case raise_for_status r of
           Inl e \<Rightarrow> (Inl e, w1)
         | Inr _ \<Rightarrow> (read_response_body r, w1))"

text \<open>The loop of \<^verbatim>\<open>post_with_retry\<close> has no bound: the function is partial, and \<open>None\<close>
  is the run that never returns.\<close>

partial_function (option) post_with_retry ::
  "remote \<Rightarrow> string \<Rightarrow> ArchiveRequest \<Rightarrow> world \<Rightarrow> ((error + json) \<times> world) option" where
  "post_with_retry srv api_key req w =
     (case post srv api_key req w of
        (Inr job_info, w1) \<Rightarrow> Some (Inr job_info, w1)
      | (Inl (HTTPError r), w1) \<Rightarrow>
          if status_code r = 429 then
            (case py_int (headers_get (headers r) ''Retry-After'' ''10'') of
               None \<Rightarrow> Some (Inl ValueError, w1)
             | Some n \<Rightarrow>
                 (case sleep n w1 of
                    (Inl e, w2) \<Rightarrow> Some (Inl e, w2)
                  | (Inr _, w2) \<Rightarrow> post_with_retry srv api_key req w2))
          else Some (Inl (HTTPError r), w1)
      | (Inl e, w1) \<Rightarrow> Some (Inl e, w1))"

section \<open>Jobs and the working set\<close>

record job =
  line_number :: nat
  request :: ArchiveRequest
  info :: json

text \<open>The working set is a \<^verbatim>\<open>deque\<close>: the head of the list is its left end.
  \<^verbatim>\<open>appendleft\<close> adds at the left, \<^verbatim>\<open>pop\<close> takes from the right and raises
  \<^verbatim>\<open>IndexError\<close> on an empty deque.\<close>

definition appendleft :: "job \<Rightarrow> job list \<Rightarrow> job list" where
  "appendleft j jobs = j # jobs"

definition pop :: "job list \<Rightarrow> error + (job \<times> job list)" where
  "pop jobs = (if jobs = [] then Inl IndexError else Inr (last jobs, butlast jobs))"

definition notify_job_submitted :: "job \<Rightarrow> world \<Rightarrow> (error + unit) \<times> world" where
  "notify_job_submitted j w =
     (case subscript (info j) ''jobId'' of
        Inl e \<Rightarrow> (Inl e, w)
      | Inr job_id \<Rightarrow> (Inr (), emit (Submitted job_id (line_number j)) w))"

definition notify_job_complete :: "job \<Rightarrow> world \<Rightarrow> (error + unit) \<times> world" where
  "notify_job_complete j w =
     (case subscript (info j) ''jobId'' of
        Inl e \<Rightarrow> (Inl e, w)
      | Inr job_id \<Rightarrow>
          (case dict_get (info j) ''rowsReturned'' (JNum 0) of
             Inl e \<Rightarrow> (Inl e, w)
           | Inr rows_returned \<Rightarrow>
               (case dict_get (info j) ''usage'' (JNum 0) of
                  Inl e \<Rightarrow> (Inl e, w)
                | Inr usage \<Rightarrow> (Inr (), emit (Completed job_id rows_returned usage) w))))"

definition notify_job_errored :: "job \<Rightarrow> world \<Rightarrow> (error + unit) \<times> world" where
  "notify_job_errored j w =
     (case subscript (info j) ''jobId'' of
        Inl e \<Rightarrow> (Inl e, w)
      | Inr job_id \<Rightarrow>
          (case subscript (info j) ''error'' of
             Inl e \<Rightarrow> (Inl e, w)
           | Inr err \<Rightarrow> (Inr (), emit (Errored job_id err) w)))"

definition handle_error :: "response \<Rightarrow> world \<Rightarrow> (error + unit) \<times> world" where
  "handle_error r w =
     (case read_response_body r of
        Inl e \<Rightarrow> (Inl e, w)
      | Inr body \<Rightarrow> (Inr (), emit (ErrorReport (status_code r) (reason r) body) w))"

text \<open>
  The loop of \<^verbatim>\<open>clean_completed\<close>, \<^verbatim>\<open>for i in range(len(jobs))\<close>: the first argument is
  the number of iterations left, \<open>complete_count\<close> and \<open>error_count\<close> are the two counters.
  The deque is changed in place, so it is part of the result also when an exception
  leaves the loop: the job popped last is then in no deque any more.
\<close>

fun clean_completed_loop ::
  "nat \<Rightarrow> remote \<Rightarrow> string \<Rightarrow> nat \<Rightarrow> nat \<Rightarrow> job list \<Rightarrow> world \<Rightarrow>
   (error + nat \<times> nat) \<times> job list \<times> world" where
  "clean_completed_loop 0 srv api_key complete_count error_count jobs w =
     (Inr (complete_count, error_count), jobs, w)"
| "clean_completed_loop (Suc n) srv api_key complete_count error_count jobs w =
     (case pop jobs of
        Inl e \<Rightarrow> (Inl e, jobs, w)
      | Inr (j, jobs1) \<Rightarrow>
          (case subscript (info j) ''jobId'' of
             Inl e \<Rightarrow> (Inl e, jobs1, w)
           | Inr job_id \<Rightarrow>
               (case get_status srv api_key job_id w of
                  (Inl e, w1) \<Rightarrow> (Inl e, jobs1, w1)
                | (Inr snapshot, w1) \<Rightarrow>
                    (case subscript snapshot ''jobStatus'' of
                       Inl e \<Rightarrow> (Inl e, jobs1, w1)
                     | Inr status \<Rightarrow>
                         if status = JStr ''complete'' then
                           (case notify_job_complete (j\<lparr>info := snapshot\<rparr>) w1 of
                              (Inl e, w2) \<Rightarrow> (Inl e, jobs1, w2)
                            | (Inr _, w2) \<Rightarrow>
                                clean_completed_loop n srv api_key (complete_count + 1)
                                  error_count jobs1 w2)
                         else if status = JStr ''error'' then
                           (case notify_job_errored (j\<lparr>info := snapshot\<rparr>) w1 of
                              (Inl e, w2) \<Rightarrow> (Inl e, jobs1, w2)
                            | (Inr _, w2) \<Rightarrow>
                                clean_completed_loop n srv api_key complete_count
                                  (error_count + 1) jobs1 w2)
                         else
                           clean_completed_loop n srv api_key complete_count error_count
                             (appendleft (j\<lparr>info := snapshot\<rparr>) jobs1) w1))))"

definition clean_completed ::
  "remote \<Rightarrow> string \<Rightarrow> job list \<Rightarrow> world \<Rightarrow> (error + nat \<times> nat) \<times> job list \<times> world" where
  "clean_completed srv api_key jobs w =
     clean_completed_loop (length jobs) srv api_key 0 0 jobs w"

section \<open>The driver\<close>

text \<open>The body of the \<^verbatim>\<open>try\<close> block of \<^verbatim>\<open>run_jobs\<close> for one job: submit, notify, enqueue,
  sweep. The result is the pair \<open>(new_completions, new_errors)\<close> or the exception raised,
  with the working set as it then is.\<close>

definition submit_and_sweep ::
  "remote \<Rightarrow> string \<Rightarrow> job \<Rightarrow> job list \<Rightarrow> world \<Rightarrow>
   ((error + nat \<times> nat) \<times> job list \<times> world) option" where
  "submit_and_sweep srv api_key j jobs w =
     (case post_with_retry srv api_key (request j) w of
        None \<Rightarrow> None
      | Some (Inl e, w1) \<Rightarrow> Some (Inl e, jobs, w1)
      | Some (Inr job_info, w1) \<Rightarrow>
          (case notify_job_submitted (j\<lparr>info := job_info\<rparr>) w1 of
             (Inl e, w2) \<Rightarrow> Some (Inl e, jobs, w2)
           | (Inr _, w2) \<Rightarrow>
               Some (clean_completed srv api_key (appendleft (j\<lparr>info := job_info\<rparr>) jobs) w2)))"

text \<open>
  The first loop of \<^verbatim>\<open>run_jobs\<close>, over the records of the CSV (\<^verbatim>\<open>yield_jobs\<close> converts
  each record only when the loop asks for it; \<open>index\<close> is the index \<^verbatim>\<open>enumerate\<close> gives
  it). Only \<^verbatim>\<open>HTTPError\<close> is caught; every other exception ends the run.
\<close>

fun run_jobs_for ::
  "remote \<Rightarrow> string \<Rightarrow> row list \<Rightarrow> nat \<Rightarrow> nat \<Rightarrow> nat \<Rightarrow> job list \<Rightarrow> world \<Rightarrow>
   ((error + nat \<times> nat \<times> job list) \<times> world) option" where
  "run_jobs_for srv api_key [] index completions errors jobs w =
     Some (Inr (completions, errors, jobs), w)"
| "run_jobs_for srv api_key (r # rows) index completions errors jobs w =
     (case to_request r of
        Inl e \<Rightarrow> Some (Inl e, w)
      | Inr req \<Rightarrow>
          (case submit_and_sweep srv api_key
                  \<lparr>line_number = index + 1, request = req, info = JObj []\<rparr> jobs w of
             None \<Rightarrow> None
           | Some (Inr (new_completions, new_errors), jobs1, w1) \<Rightarrow>
               run_jobs_for srv api_key rows (index + 1) (completions + new_completions)
                 (errors + new_errors) jobs1 w1
           | Some (Inl (HTTPError resp), jobs1, w1) \<Rightarrow>
               (case handle_error resp w1 of
                  (Inl e, w2) \<Rightarrow> Some (Inl e, w2)
                | (Inr _, w2) \<Rightarrow>
                    run_jobs_for srv api_key rows (index + 1) completions (errors + 1) jobs1 w2)
           | Some (Inl e, jobs1, w1) \<Rightarrow> Some (Inl e, w1)))"

text \<open>The second loop, \<^verbatim>\<open>while jobs_in_progress\<close>: it ends only when the working set is
  empty, so it is partial.\<close>

partial_function (option) run_jobs_while ::
  "remote \<Rightarrow> string \<Rightarrow> nat \<Rightarrow> nat \<Rightarrow> job list \<Rightarrow> world \<Rightarrow> ((error + nat \<times> nat) \<times> world) option"
  where
  "run_jobs_while srv api_key completions errors jobs w =
     (if jobs = [] then Some (Inr (completions, errors), w)
      else
        (case clean_completed srv api_key jobs w of
           (Inl e, jobs1, w1) \<Rightarrow> Some (Inl e, w1)
         | (Inr (new_completions, new_errors), jobs1, w1) \<Rightarrow>
             run_jobs_while srv api_key (completions + new_completions) (errors + new_errors)
               jobs1 (emit (Sleep 10) w1)))"

text \<open>\<^verbatim>\<open>run_jobs\<close> on the records of the jobs file. The Python function returns nothing
  and prints the tally (\<open>Tally (completions + errors) errors\<close>, the last event); the model
  returns the two counters as well.\<close>

definition run_jobs ::
  "remote \<Rightarrow> string \<Rightarrow> row list \<Rightarrow> world \<Rightarrow> ((error + nat \<times> nat) \<times> world) option" where
  "run_jobs srv api_key rows w =
     (case run_jobs_for srv api_key rows 0 0 0 [] w of
        None \<Rightarrow> None
      | Some (Inl e, w1) \<Rightarrow> Some (Inl e, w1)
      | Some (Inr (completions, errors, jobs), w1) \<Rightarrow>
          (case run_jobs_while srv api_key completions errors jobs w1 of
             None \<Rightarrow> None
           | Some (Inl e, w2) \<Rightarrow> Some (Inl e, w2)
           | Some (Inr (completions', errors'), w2) \<Rightarrow>
               Some (Inr (completions', errors'),
                     emit (Tally (completions' + errors') errors') w2)))"

section \<open>Notions used in the statements\<close>


text \<open>The header names of a row that are strings.\<close>

definition string_keys :: "row \<Rightarrow> string set" where
  "string_keys row = set (List.map_filter fst row)"

text \<open>Sample data: the request of the scenario of the specification, the world before
  the run, and three responses of the service.\<close>

definition sample_request :: ArchiveRequest where
  "sample_request =
     \<lparr>start_date_time = Str ''2022-01-01'', end_date_time = Str ''2022-01-02'',
      location = Str ''40,-74'', format = Str ''json'', units = Str ''e'',
      results_location = Str ''s3://bucket/out''\<rparr>"

definition initial_world :: world where
  "initial_world = \<lparr>calls = 0, trace = []\<rparr>"

definition rate_limited :: "(string \<times> string) list \<Rightarrow> response" where
  "rate_limited hs =
     \<lparr>status_code = 429, reason = ''Too Many Requests'', headers = hs, content = Empty\<rparr>"

definition ok_response :: "json \<Rightarrow> response" where
  "ok_response body =
     \<lparr>status_code = 200, reason = ''OK'', headers = [], content = JsonText body\<rparr>"

definition failed_response :: "int \<Rightarrow> content \<Rightarrow> response" where
  "failed_response code body =
     \<lparr>status_code = code, reason = ''Error'', headers = [], content = body\<rparr>"

text \<open>
  One iteration of the loop of \<^verbatim>\<open>clean_completed\<close> on the job \<open>j\<close> just popped, as a
  function of its own: the exception raised, or the increments of the two counters and
  the job put back (if any).
\<close>

definition poll_one ::
  "remote \<Rightarrow> string \<Rightarrow> job \<Rightarrow> world \<Rightarrow> (error + nat \<times> nat \<times> job option) \<times> world" where
  "poll_one srv api_key j w =
     (case subscript (info j) ''jobId'' of
        Inl e \<Rightarrow> (Inl e, w)
      | Inr job_id \<Rightarrow>
          (case get_status srv api_key job_id w of
             (Inl e, w1) \<Rightarrow> (Inl e, w1)
           | (Inr snapshot, w1) \<Rightarrow>
               (case subscript snapshot ''jobStatus'' of
                  Inl e \<Rightarrow> (Inl e, w1)
                | Inr status \<Rightarrow>
                    if status = JStr ''complete'' then
                      (case notify_job_complete (j\<lparr>info := snapshot\<rparr>) w1 of
                         (Inl e, w2) \<Rightarrow> (Inl e, w2)
                       | (Inr _, w2) \<Rightarrow> (Inr (1, 0, None), w2))
                    else if status = JStr ''error'' then
                      (case notify_job_errored (j\<lparr>info := snapshot\<rparr>) w1 of
                         (Inl e, w2) \<Rightarrow> (Inl e, w2)
                       | (Inr _, w2) \<Rightarrow> (Inr (0, 1, None), w2))
                    else (Inr (0, 0, Some (j\<lparr>info := snapshot\<rparr>)), w1))))"

text \<open>The deque after an iteration that put back \<open>q\<close>.\<close>

definition put_back :: "job option \<Rightarrow> job list \<Rightarrow> job list" where
  "put_back q jobs = (case q of None \<Rightarrow> jobs | Some j \<Rightarrow> appendleft j jobs)"

text \<open>
  The sweep as a first-in-first-out pass over two lists, as the specification describes
  it: \<open>waiting\<close> holds the jobs still to be polled, oldest first, and \<open>behind\<close> the jobs put
  back during this pass, newest first. The deque of the program is \<open>behind @ rev waiting\<close>.
\<close>

fun poll_all ::
  "remote \<Rightarrow> string \<Rightarrow> job list \<Rightarrow> nat \<Rightarrow> nat \<Rightarrow> job list \<Rightarrow> world \<Rightarrow>
   (error + nat \<times> nat) \<times> job list \<times> job list \<times> world" where
  "poll_all srv api_key [] cc ec behind w = (Inr (cc, ec), [], behind, w)"
| "poll_all srv api_key (j # waiting) cc ec behind w =
     (case poll_one srv api_key j w of
        (Inl e, w1) \<Rightarrow> (Inl e, waiting, behind, w1)
      | (Inr (dc, de, q), w1) \<Rightarrow>
          poll_all srv api_key waiting (cc + dc) (ec + de) (put_back q behind) w1)"

text \<open>The polls recorded in a list of events: job id and response, in order.\<close>

fun polls :: "event list \<Rightarrow> (json \<times> response) list" where
  "polls [] = []"
| "polls (Request (Get api_key job_id) r # evs) = (job_id, r) # polls evs"
| "polls (ev # evs) = polls evs"

text \<open>A response fails when \<^verbatim>\<open>raise_for_status\<close> raises on it.\<close>

definition failed :: "response \<Rightarrow> bool" where
  "failed r \<longleftrightarrow> raise_for_status r \<noteq> Inr ()"

text \<open>The status snapshot a response carries (\<open>JNull\<close> if its body cannot be read).\<close>

definition snapshot_of :: "response \<Rightarrow> json" where
  "snapshot_of r = (case read_response_body r of Inr s \<Rightarrow> s | Inl e \<Rightarrow> JNull)"

definition is_complete :: "json \<Rightarrow> bool" where
  "is_complete snapshot \<longleftrightarrow> subscript snapshot ''jobStatus'' = Inr (JStr ''complete'')"

definition is_error :: "json \<Rightarrow> bool" where
  "is_error snapshot \<longleftrightarrow> subscript snapshot ''jobStatus'' = Inr (JStr ''error'')"

text \<open>A status is terminal when it is \<^verbatim>\<open>complete\<close> or \<^verbatim>\<open>error\<close>.\<close>

definition terminal :: "json \<Rightarrow> bool" where
  "terminal snapshot \<longleftrightarrow> is_complete snapshot \<or> is_error snapshot"

text \<open>The snapshots the polls recorded in a list of events returned, in order.\<close>

definition snapshots :: "event list \<Rightarrow> json list" where
  "snapshots evs = map (snapshot_of \<circ> snd) (polls evs)"

text \<open>The jobs a pass puts back, oldest first: of the polled jobs, paired with the
  snapshots they got, those whose status is not terminal, each with its new snapshot.\<close>

definition requeue :: "(job \<times> json) list \<Rightarrow> job list" where
  "requeue pairs = map (\<lambda>(j, s). j\<lparr>info := s\<rparr>) (filter (\<lambda>(j, s). \<not> terminal s) pairs)"

text \<open>The completion notices in a list of events, and the notice that belongs to a
  snapshot: job id, rows returned and usage, the last two zero when absent.\<close>

fun completions :: "event list \<Rightarrow> event list" where
  "completions [] = []"
| "completions (Completed job_id rows usage # evs) = Completed job_id rows usage # completions evs"
| "completions (ev # evs) = completions evs"

definition completion_notice :: "json \<Rightarrow> event list" where
  "completion_notice s =
     (case s of
        JObj kvs \<Rightarrow>
          (case map_of kvs ''jobId'' of
             None \<Rightarrow> []
           | Some job_id \<Rightarrow>
               [Completed job_id
                  (case map_of kvs ''rowsReturned'' of Some x \<Rightarrow> x | None \<Rightarrow> JNum 0)
                  (case map_of kvs ''usage'' of Some x \<Rightarrow> x | None \<Rightarrow> JNum 0)])
      | _ \<Rightarrow> [])"

text \<open>Sample data for the sweep: a tracked job, a status answer, and a service that
  reports \<^verbatim>\<open>J1\<close> complete with its counts, \<^verbatim>\<open>J4\<close> complete without them, \<^verbatim>\<open>J3\<close> in error
  and every other job running.\<close>

definition sample_job :: "nat \<Rightarrow> string \<Rightarrow> string \<Rightarrow> job" where
  "sample_job n job_id status =
     \<lparr>line_number = n, request = sample_request,
      info = JObj [(''jobId'', JStr job_id), (''jobStatus'', JStr status)]\<rparr>"

definition status_response :: "string \<Rightarrow> string \<Rightarrow> (string \<times> json) list \<Rightarrow> response" where
  "status_response job_id status extra =
     ok_response (JObj ([(''jobId'', JStr job_id), (''jobStatus'', JStr status)] @ extra))"

definition sample_service :: remote where
  "sample_service i c =
     (case c of
        Get api_key (JStr job_id) \<Rightarrow>
          if job_id = ''J1'' then
            status_response job_id ''complete'' [(''rowsReturned'', JNum 42), (''usage'', JNum 1)]
          else if job_id = ''J4'' then status_response job_id ''complete'' []
          else if job_id = ''J3'' then
            status_response job_id ''error'' [(''error'', JStr ''no data'')]
          else status_response job_id ''running'' []
      | Get api_key other \<Rightarrow> failed_response 400 Empty
      | Post api_key req \<Rightarrow> failed_response 500 Empty)"

definition sample_working_set :: "job list" where
  "sample_working_set =
     [sample_job 3 ''J3'' ''running'', sample_job 2 ''J2'' ''queued'',
      sample_job 1 ''J1'' ''running'']"

definition sample_sweep_world :: world where
  "sample_sweep_world =
     \<lparr>calls = 3,
      trace =
        [Request (Get ''key'' (JStr ''J1''))
           (status_response ''J1'' ''complete''
              [(''rowsReturned'', JNum 42), (''usage'', JNum 1)]),
         Completed (JStr ''J1'') (JNum 42) (JNum 1),
         Request (Get ''key'' (JStr ''J2'')) (status_response ''J2'' ''running'' []),
         Request (Get ''key'' (JStr ''J3''))
           (status_response ''J3'' ''error'' [(''error'', JStr ''no data'')]),
         Errored (JStr ''J3'') (JStr ''no data'')]\<rparr>"

text \<open>The record of the scenario of the specification, and the job made from the record
  at index \<open>index\<close> before it is submitted.\<close>

definition sample_row :: row where
  "sample_row =
     [(Some ''startDateTime'', Str ''2022-01-01''), (Some ''endDateTime'', Str ''2022-01-02''),
      (Some ''location'', Str ''40,-74''), (Some ''format'', Str ''json''),
      (Some ''units'', Str ''e''), (Some ''resultsLocation'', Str ''s3://bucket/out'')]"

definition new_job :: "nat \<Rightarrow> ArchiveRequest \<Rightarrow> job" where
  "new_job index req = \<lparr>line_number = index + 1, request = req, info = JObj []\<rparr>"




section \<open>Header normalisation is idempotent and ignores case and separators\<close>


lemma lower_char_idem: "lower_char (lower_char c) = lower_char c"
  by (simp add: lower_char_def Let_def)

lemma lower_idem: "lower (lower s) = lower s"
  by (simp add: lower_def lower_char_idem)














section \<open>Which rows convert to a request\<close>

lemma normalize_row_None:
  "None \<in> fst ` set row \<Longrightarrow> normalize_row row acc = Inl AttributeError"
  by (induction row acc rule: normalize_row.induct) auto

lemma string_keys_Cons: "string_keys ((Some k, v) # rest) = insert k (string_keys rest)"
  by (simp add: string_keys_def map_filter_simps)

lemma normalize_row_Some:
  "None \<notin> fst ` set row \<Longrightarrow>
   \<exists>m. normalize_row row acc = Inr m
     \<and> fst ` set m = fst ` set acc \<union> normalize_key ` string_keys row"
proof (induction row acc rule: normalize_row.induct)
  case (1 acc)
  then show ?case by (simp add: string_keys_def map_filter_simps)
next
  case (2 v rest acc)
  then show ?case by simp
next
  case (3 k v rest acc)
  then have "None \<notin> fst ` set rest" by auto
  from 3(1)[OF this] obtain m where
    m: "normalize_row rest (AList.update (normalize_key k) v acc) = Inr m"
       "fst ` set m = fst ` set (AList.update (normalize_key k) v acc)
          \<union> normalize_key ` string_keys rest"
    by blast
  from m(2) have "fst ` set m = fst ` set acc \<union> normalize_key ` string_keys ((Some k, v) # rest)"
    by (simp add: dom_update string_keys_Cons)
  with m(1) show ?case by simp
qed

lemma map_of_is_Some: "(\<exists>v. map_of kw k = Some v) \<longleftrightarrow> k \<in> fst ` set kw"
proof -
  have "(\<exists>v. map_of kw k = Some v) \<longleftrightarrow> map_of kw k \<noteq> None" by auto
  then show ?thesis by (simp add: map_of_eq_None_iff)
qed

lemma new_ArchiveRequest_Inr_D:
  assumes "new_ArchiveRequest kw = Inr req"
  shows "list_all (\<lambda>(k, v). k \<in> set field_names) kw"
    and "\<exists>v. map_of kw ''start_date_time'' = Some v"
    and "\<exists>v. map_of kw ''end_date_time'' = Some v"
    and "\<exists>v. map_of kw ''location'' = Some v"
    and "\<exists>v. map_of kw ''format'' = Some v"
    and "\<exists>v. map_of kw ''units'' = Some v"
    and "\<exists>v. map_of kw ''results_location'' = Some v"
  using assms
  by (simp_all add: new_ArchiveRequest_def split: if_splits option.splits)

lemma new_ArchiveRequest_Inr_I:
  assumes "list_all (\<lambda>(k, v). k \<in> set field_names) kw"
    and "map_of kw ''start_date_time'' = Some a"
    and "map_of kw ''end_date_time'' = Some b"
    and "map_of kw ''location'' = Some c"
    and "map_of kw ''format'' = Some d"
    and "map_of kw ''units'' = Some e"
    and "map_of kw ''results_location'' = Some f"
  shows "\<exists>req. new_ArchiveRequest kw = Inr req"
  using assms by (simp add: new_ArchiveRequest_def)

lemma set_field_names:
  "set field_names = {''start_date_time'', ''end_date_time'', ''location'', ''format'',
     ''units'', ''results_location''}"
  by (simp add: field_names_def)

lemma new_ArchiveRequest_Inr_iff:
  "(\<exists>req. new_ArchiveRequest kw = Inr req) \<longleftrightarrow> fst ` set kw = set field_names"
proof
  assume "\<exists>req. new_ArchiveRequest kw = Inr req"
  then obtain req where r: "new_ArchiveRequest kw = Inr req" ..
  have 1: "fst ` set kw \<subseteq> set field_names"
    using new_ArchiveRequest_Inr_D(1)[OF r] by (auto simp: list_all_iff)
  have 2: "set field_names \<subseteq> fst ` set kw"
    unfolding set_field_names
    using new_ArchiveRequest_Inr_D(2-7)[OF r] by (simp add: map_of_is_Some)
  from 1 2 show "fst ` set kw = set field_names" by (rule subset_antisym)
next
  assume eq: "fst ` set kw = set field_names"
  have "\<And>a b. (a, b) \<in> set kw \<Longrightarrow> a \<in> fst ` set kw"
    by force
  with eq have sub: "list_all (\<lambda>(k, v). k \<in> set field_names) kw"
    by (auto simp: list_all_iff)
  have mem: "\<And>k. k \<in> set field_names \<Longrightarrow> \<exists>v. map_of kw k = Some v"
    using eq by (simp add: map_of_is_Some)
  obtain a where a: "map_of kw ''start_date_time'' = Some a"
    using mem[of "''start_date_time''"] by (auto simp: set_field_names)
  obtain b where b: "map_of kw ''end_date_time'' = Some b"
    using mem[of "''end_date_time''"] by (auto simp: set_field_names)
  obtain c where c: "map_of kw ''location'' = Some c"
    using mem[of "''location''"] by (auto simp: set_field_names)
  obtain d where d: "map_of kw ''format'' = Some d"
    using mem[of "''format''"] by (auto simp: set_field_names)
  obtain e where e: "map_of kw ''units'' = Some e"
    using mem[of "''units''"] by (auto simp: set_field_names)
  obtain f where f: "map_of kw ''results_location'' = Some f"
    using mem[of "''results_location''"] by (auto simp: set_field_names)
  from sub a b c d e f show "\<exists>req. new_ArchiveRequest kw = Inr req"
    by (rule new_ArchiveRequest_Inr_I)
qed

lemma new_ArchiveRequest_cases:
  "(\<exists>req. new_ArchiveRequest kw = Inr req) \<or> new_ArchiveRequest kw = Inl TypeError"
  by (simp add: new_ArchiveRequest_def split: option.splits)

lemma to_request_Inr_iff: "(\<exists>req. to_request row = Inr req) \<longleftrightarrow> (None \<notin> fst ` set row \<and> normalize_key ` string_keys row = set field_names)"
proof (cases "None \<in> fst ` set row")
  case True
  then show ?thesis
    by (simp add: to_request_def normalize_row_None)
next
  case False
  from normalize_row_Some[OF False, of "[]"] obtain m where
    m: "normalize_row row [] = Inr m" "fst ` set m = normalize_key ` string_keys row"
    by auto
  have "(\<exists>req. to_request row = Inr req) \<longleftrightarrow> (\<exists>req. new_ArchiveRequest m = Inr req)"
    by (simp add: to_request_def m(1))
  also have "\<dots> \<longleftrightarrow> fst ` set m = set field_names"
    by (rule new_ArchiveRequest_Inr_iff)
  finally show ?thesis using False by (simp add: m(2))
qed

lemma to_request_TypeError:
  assumes "None \<notin> fst ` set row" "\<not> (None \<notin> fst ` set row \<and> normalize_key ` string_keys row = set field_names)"
  shows "to_request row = Inl TypeError"
proof -
  from normalize_row_Some[OF assms(1), of "[]"] obtain m where
    m: "normalize_row row [] = Inr m" by auto
  have "\<not> (\<exists>req. to_request row = Inr req)"
    using assms(2) by (simp add: to_request_Inr_iff)
  then have "\<not> (\<exists>req. new_ArchiveRequest m = Inr req)"
    by (simp add: to_request_def m)
  with new_ArchiveRequest_cases[of m] have "new_ArchiveRequest m = Inl TypeError" by blast
  then show ?thesis by (simp add: to_request_def m)
qed

text \<open>
  Claim C9. \<^verbatim>\<open>to_request\<close> returns a request exactly when every key of the row is a
  string and the set of the normalised keys is the set of the six field names. A row
  with string keys whose normalised keys are any other set, with a field missing or with
  a column too many, fails with the same \<^verbatim>\<open>TypeError\<close>.
\<close>

theorem to_request_succeeds_iff_exact_fields:
  "((\<exists>req. to_request row = Inr req) \<longleftrightarrow>
      None \<notin> fst ` set row \<and> normalize_key ` string_keys row = set field_names)
   \<and> (None \<notin> fst ` set row \<and> normalize_key ` string_keys row \<noteq> set field_names \<longrightarrow>
        to_request row = Inl TypeError)"
  using to_request_Inr_iff [of row] to_request_TypeError [of row] by blast

theorem to_request_succeeds_iff_exact_fields_witness:
  "(\<exists>req. to_request
      [(Some ''Start_Date_Time'', Str ''2022-01-01''), (Some ''end date time'', Str ''2022-01-02''),
       (Some ''LOCATION'', Str ''40,-74''), (Some ''format'', Str ''json''),
       (Some ''units'', Str ''e''), (Some ''results-location'', Str ''s3://bucket/out'')]
      = Inr req)
   \<and> to_request
      [(Some ''Start_Date_Time'', Str ''2022-01-01''), (Some ''end date time'', Str ''2022-01-02''),
       (Some ''LOCATION'', Str ''40,-74''), (Some ''format'', Str ''json''),
       (Some ''units'', Str ''e''), (Some ''results-location'', Str ''s3://bucket/out''),
       (Some ''comment'', Str ''x'')]
      = Inl TypeError
   \<and> to_request
      [(Some ''Start_Date_Time'', Str ''2022-01-01''), (Some ''end date time'', Str ''2022-01-02''),
       (Some ''LOCATION'', Str ''40,-74''), (Some ''format'', Str ''json''),
       (Some ''units'', Str ''e'')]
      = Inl TypeError"
proof -
  let ?good = "[(Some ''Start_Date_Time'', Str ''2022-01-01''), (Some ''end date time'', Str ''2022-01-02''),
       (Some ''LOCATION'', Str ''40,-74''), (Some ''format'', Str ''json''),
       (Some ''units'', Str ''e''), (Some ''results-location'', Str ''s3://bucket/out'')]"
  let ?extra = "?good @ [(Some ''comment'', Str ''x'')]"
  let ?short = "butlast ?good"
  have g: "None \<notin> fst ` set ?good \<and> normalize_key ` string_keys ?good = set field_names"
    by code_simp
  have e: "None \<notin> fst ` set ?extra \<and> normalize_key ` string_keys ?extra \<noteq> set field_names"
    by code_simp
  have s: "None \<notin> fst ` set ?short \<and> normalize_key ` string_keys ?short \<noteq> set field_names"
    by code_simp
  show ?thesis
    using g e s
      to_request_succeeds_iff_exact_fields [of ?good]
      to_request_succeeds_iff_exact_fields [of ?extra]
      to_request_succeeds_iff_exact_fields [of ?short]
    by simp
qed

section \<open>Submission with retry\<close>

lemma send_eq:
  "send srv c w =
     (srv (calls w) c, \<lparr>calls = Suc (calls w), trace = trace w @ [Request c (srv (calls w) c)]\<rparr>)"
  by (simp add: send_def Let_def)

lemma post_eq:
  "post srv api_key req w =
     (let r = srv (calls w) (Post api_key req);
          w1 = \<lparr>calls = Suc (calls w), trace = trace w @ [Request (Post api_key req) r]\<rparr>
      in if 400 \<le> status_code r \<and> status_code r < 600 then (Inl (HTTPError r), w1)
         else case read_response_body r of
                Inl e \<Rightarrow> (Inl e, w1)
              | Inr body \<Rightarrow> (subscript body ''job'', w1))"
  by (simp add: post_def send_def raise_for_status_def Let_def)

lemma post_HTTPError:
  assumes "send srv (Post api_key req) w = (r, w1)" "raise_for_status r = Inl e"
  shows "post srv api_key req w = (Inl (HTTPError r), w1)"
  using assms by (auto simp: post_def raise_for_status_def split: if_splits)

lemma post_with_retry_non_integer:
  assumes "send srv (Post api_key req) w = (r, w1)" "status_code r = 429"
    and "py_int (headers_get (headers r) ''Retry-After'' ''10'') = None"
  shows "post_with_retry srv api_key req w = Some (Inl ValueError, w1)"
proof -
  have "raise_for_status r = Inl (HTTPError r)"
    using assms(2) by (simp add: raise_for_status_def)
  with assms(1) have "post srv api_key req w = (Inl (HTTPError r), w1)"
    by (rule post_HTTPError)
  then show ?thesis
    using assms(2,3) by (subst post_with_retry.simps) simp
qed


lemma post_with_retry_negative:
  assumes "send srv (Post api_key req) w = (r, w1)" "status_code r = 429"
    and "py_int (headers_get (headers r) ''Retry-After'' ''10'') = Some n" "n < 0"
  shows "post_with_retry srv api_key req w = Some (Inl ValueError, w1)"
proof -
  have "raise_for_status r = Inl (HTTPError r)"
    using assms(2) by (simp add: raise_for_status_def)
  with assms(1) have "post srv api_key req w = (Inl (HTTPError r), w1)"
    by (rule post_HTTPError)
  then show ?thesis
    using assms(2,3,4) by (subst post_with_retry.simps) (simp add: sleep_def)
qed


lemma headers_get_absent:
  "lower name \<notin> lower ` fst ` set hs \<Longrightarrow> headers_get hs name dflt = dflt"
proof -
  assume a: "lower name \<notin> lower ` fst ` set hs"
  have "fst ` set (map (\<lambda>(k, v). (lower k, v)) hs) = lower ` fst ` set hs"
    by force
  with a have "map_of (map (\<lambda>(k, v). (lower k, v)) hs) (lower name) = None"
    by (simp add: map_of_eq_None_iff)
  then show ?thesis by (simp add: headers_get_def)
qed

lemma py_int_10: "py_int ''10'' = Some 10"
  by code_simp




text \<open>
  Claim C10. When a submission is answered with status 429 and the value looked up for
  the \<^verbatim>\<open>Retry-After\<close> header is not accepted by \<^verbatim>\<open>int\<close>, \<^verbatim>\<open>post_with_retry\<close> raises
  \<^verbatim>\<open>ValueError\<close> right after that one exchange: it neither sleeps nor submits again. An
  absent header is looked up as \<^verbatim>\<open>'10'\<close>, which \<^verbatim>\<open>int\<close> accepts, and an HTTP date is not
  accepted; so the branch that waits and retries is reached only with an absent header
  or one that parses as an integer.
\<close>

theorem post_with_retry_retry_after_not_integer:
  "(send srv (Post api_key req) w = (r, w1) \<and> status_code r = 429
      \<and> py_int (headers_get (headers r) ''Retry-After'' ''10'') = None
    \<longrightarrow> post_with_retry srv api_key req w = Some (Inl ValueError, w1)
        \<and> calls w1 = Suc (calls w)
        \<and> trace w1 = trace w @ [Request (Post api_key req) r])
   \<and> (lower ''Retry-After'' \<notin> lower ` fst ` set (headers r)
        \<longrightarrow> py_int (headers_get (headers r) ''Retry-After'' ''10'') = Some 10)
   \<and> py_int ''Wed, 21 Oct 2015 07:28:00 GMT'' = None"
proof (intro conjI impI)
  assume a: "send srv (Post api_key req) w = (r, w1) \<and> status_code r = 429
      \<and> py_int (headers_get (headers r) ''Retry-After'' ''10'') = None"
  then show "post_with_retry srv api_key req w = Some (Inl ValueError, w1)"
    using post_with_retry_non_integer[of srv api_key req w r w1] by blast
  from a show "calls w1 = Suc (calls w)" by (auto simp: send_def Let_def)
  from a show "trace w1 = trace w @ [Request (Post api_key req) r]"
    by (auto simp: send_def Let_def)
next
  assume "lower ''Retry-After'' \<notin> lower ` fst ` set (headers r)"
  then show "py_int (headers_get (headers r) ''Retry-After'' ''10'') = Some 10"
    by (simp add: headers_get_absent py_int_10)
next
  show "py_int ''Wed, 21 Oct 2015 07:28:00 GMT'' = None" by code_simp
qed

theorem post_with_retry_retry_after_not_integer_witness:
  "post_with_retry
     (\<lambda>i c. rate_limited [(''Retry-After'', ''Wed, 21 Oct 2015 07:28:00 GMT'')])
     ''key'' sample_request initial_world
   = Some (Inl ValueError,
       \<lparr>calls = 1,
        trace = [Request (Post ''key'' sample_request)
                   (rate_limited [(''Retry-After'', ''Wed, 21 Oct 2015 07:28:00 GMT'')])]\<rparr>)
   \<and> py_int (headers_get (headers (rate_limited [])) ''Retry-After'' ''10'') = Some 10"
proof -
  let ?r = "rate_limited [(''Retry-After'', ''Wed, 21 Oct 2015 07:28:00 GMT'')]"
  let ?w1 = "\<lparr>calls = 1, trace = [Request (Post ''key'' sample_request) ?r]\<rparr>"
  have s: "send (\<lambda>i c. ?r) (Post ''key'' sample_request) initial_world = (?r, ?w1)"
    by (simp add: send_eq initial_world_def)
  have c: "status_code ?r = 429" by (simp add: rate_limited_def)
  have h: "headers_get (headers ?r) ''Retry-After'' ''10'' = ''Wed, 21 Oct 2015 07:28:00 GMT''"
    by code_simp
  have p: "py_int (headers_get (headers ?r) ''Retry-After'' ''10'') = None"
    unfolding h by code_simp
  have n: "lower ''Retry-After'' \<notin> lower ` fst ` set (headers (rate_limited []))"
    by (simp add: rate_limited_def)
  show ?thesis
    using s c p n
      post_with_retry_retry_after_not_integer
        [of "\<lambda>i c. ?r" "''key''" sample_request initial_world ?r ?w1]
      post_with_retry_retry_after_not_integer
        [of "\<lambda>i c. ?r" "''key''" sample_request initial_world "rate_limited []" ?w1]
    by simp
qed



section \<open>The sweep as a first-in-first-out pass\<close>

lemma clean_completed_loop_Suc:
  "clean_completed_loop (Suc n) srv api_key cc ec (jobs @ [j]) w =
     (case poll_one srv api_key j w of
        (Inl e, w1) \<Rightarrow> (Inl e, jobs, w1)
      | (Inr (dc, de, q), w1) \<Rightarrow>
          clean_completed_loop n srv api_key (cc + dc) (ec + de) (put_back q jobs) w1)"
  by (simp add: pop_def poll_one_def put_back_def
      split: sum.splits prod.splits)

lemma clean_completed_loop_Nil:
  "clean_completed_loop (Suc n) srv api_key cc ec [] w = (Inl IndexError, [], w)"
  by (simp add: pop_def)

lemma put_back_append: "put_back q (behind @ xs) = put_back q behind @ xs"
  by (simp add: put_back_def appendleft_def split: option.splits)

lemma clean_completed_loop_poll_all:
  "clean_completed_loop (length pending) srv api_key cc ec (behind @ pending) w =
     (case poll_all srv api_key (rev pending) cc ec behind w of
        (res, waiting, behind', w') \<Rightarrow> (res, behind' @ rev waiting, w'))"
proof (induction pending arbitrary: cc ec behind w rule: rev_induct)
  case Nil
  then show ?case by simp
next
  case (snoc j pending)
  have "clean_completed_loop (length (pending @ [j])) srv api_key cc ec (behind @ pending @ [j]) w
      = clean_completed_loop (Suc (length pending)) srv api_key cc ec ((behind @ pending) @ [j]) w"
    by simp
  also have "\<dots> = (case poll_one srv api_key j w of
        (Inl e, w1) \<Rightarrow> (Inl e, behind @ pending, w1)
      | (Inr (dc, de, q), w1) \<Rightarrow>
          clean_completed_loop (length pending) srv api_key (cc + dc) (ec + de)
            (put_back q behind @ pending) w1)"
    by (simp only: clean_completed_loop_Suc put_back_append)
  also have "\<dots> = (case poll_all srv api_key (rev (pending @ [j])) cc ec behind w of
        (res, waiting, behind', w') \<Rightarrow> (res, behind' @ rev waiting, w'))"
    by (simp add: snoc.IH split: sum.splits prod.splits)
  finally show ?case .
qed

lemma clean_completed_poll_all:
  "clean_completed srv api_key jobs w =
     (case poll_all srv api_key (rev jobs) 0 0 [] w of
        (res, waiting, behind, w') \<Rightarrow> (res, behind @ rev waiting, w'))"
  using clean_completed_loop_poll_all [of jobs srv api_key 0 0 "[]" w]
  by (simp add: clean_completed_def)

lemma get_status_eq:
  "get_status srv api_key job_id w =
     (if failed (srv (calls w) (Get api_key job_id))
      then Inl (HTTPError (srv (calls w) (Get api_key job_id)))
      else read_response_body (srv (calls w) (Get api_key job_id)),
      snd (send srv (Get api_key job_id) w))"
  by (simp add: get_status_def send_eq failed_def raise_for_status_def)

lemma read_response_body_not_HTTPError: "read_response_body r \<noteq> Inl (HTTPError r')"
  by (simp add: read_response_body_def split: content.splits)

lemma subscript_not_HTTPError: "subscript v key \<noteq> Inl (HTTPError r')"
  by (simp add: subscript_def split: json.splits option.splits)

lemma notify_job_complete_cases:
  "(\<exists>e. notify_job_complete j w = (Inl e, w) \<and> (\<forall>r. e \<noteq> HTTPError r)
        \<and> subscript (info j) ''jobId'' = Inl e)
   \<or> (\<exists>jid rows usage. notify_job_complete j w = (Inr (), emit (Completed jid rows usage) w)
        \<and> subscript (info j) ''jobId'' = Inr jid
        \<and> dict_get (info j) ''rowsReturned'' (JNum 0) = Inr rows
        \<and> dict_get (info j) ''usage'' (JNum 0) = Inr usage)"
proof (cases "info j")
  case (JObj kvs)
  then show ?thesis
    by (simp add: notify_job_complete_def subscript_def dict_get_def split: option.splits)
qed (simp_all add: notify_job_complete_def subscript_def)

lemma notify_job_errored_cases:
  "(\<exists>e. notify_job_errored j w = (Inl e, w) \<and> (\<forall>r. e \<noteq> HTTPError r))
   \<or> (\<exists>jid err. notify_job_errored j w = (Inr (), emit (Errored jid err) w)
        \<and> subscript (info j) ''jobId'' = Inr jid
        \<and> subscript (info j) ''error'' = Inr err)"
proof (cases "info j")
  case (JObj kvs)
  then show ?thesis
    by (simp add: notify_job_errored_def subscript_def split: option.splits)
qed (simp_all add: notify_job_errored_def subscript_def)

lemma poll_one_cases:
  obtains
    (no_id) e where
      "subscript (info j) ''jobId'' = Inl e"
      "poll_one srv api_key j w = (Inl e, w)"
      "\<forall>r. e \<noteq> HTTPError r"
  | (http) job_id where
      "subscript (info j) ''jobId'' = Inr job_id"
      "failed (srv (calls w) (Get api_key job_id))"
      "poll_one srv api_key j w =
         (Inl (HTTPError (srv (calls w) (Get api_key job_id))),
          snd (send srv (Get api_key job_id) w))"
  | (bad) job_id e where
      "subscript (info j) ''jobId'' = Inr job_id"
      "\<not> failed (srv (calls w) (Get api_key job_id))"
      "poll_one srv api_key j w = (Inl e, snd (send srv (Get api_key job_id) w))"
      "\<forall>r. e \<noteq> HTTPError r"
  | (complete) job_id s jid rows usage where
      "subscript (info j) ''jobId'' = Inr job_id"
      "\<not> failed (srv (calls w) (Get api_key job_id))"
      "read_response_body (srv (calls w) (Get api_key job_id)) = Inr s"
      "is_complete s"
      "subscript s ''jobId'' = Inr jid"
      "dict_get s ''rowsReturned'' (JNum 0) = Inr rows"
      "dict_get s ''usage'' (JNum 0) = Inr usage"
      "poll_one srv api_key j w =
         (Inr (1, 0, None),
          emit (Completed jid rows usage) (snd (send srv (Get api_key job_id) w)))"
  | (error) job_id s jid err where
      "subscript (info j) ''jobId'' = Inr job_id"
      "\<not> failed (srv (calls w) (Get api_key job_id))"
      "read_response_body (srv (calls w) (Get api_key job_id)) = Inr s"
      "is_error s"
      "subscript s ''jobId'' = Inr jid"
      "subscript s ''error'' = Inr err"
      "poll_one srv api_key j w =
         (Inr (0, 1, None),
          emit (Errored jid err) (snd (send srv (Get api_key job_id) w)))"
  | (other) job_id s where
      "subscript (info j) ''jobId'' = Inr job_id"
      "\<not> failed (srv (calls w) (Get api_key job_id))"
      "read_response_body (srv (calls w) (Get api_key job_id)) = Inr s"
      "\<not> terminal s"
      "poll_one srv api_key j w =
         (Inr (0, 0, Some (j\<lparr>info := s\<rparr>)), snd (send srv (Get api_key job_id) w))"
proof (cases "subscript (info j) ''jobId''")
  case (Inl e)
  then have "poll_one srv api_key j w = (Inl e, w)" by (simp add: poll_one_def)
  moreover have "\<forall>r. e \<noteq> HTTPError r" using Inl subscript_not_HTTPError by metis
  ultimately show ?thesis using Inl no_id by blast
next
  case id: (Inr job_id)
  let ?r = "srv (calls w) (Get api_key job_id)"
  let ?w1 = "snd (send srv (Get api_key job_id) w)"
  show ?thesis
  proof (cases "failed ?r")
    case True
    then have "poll_one srv api_key j w = (Inl (HTTPError ?r), ?w1)"
      by (simp add: poll_one_def id get_status_eq)
    with id True show ?thesis by (rule http)
  next
    case nf: False
    show ?thesis
    proof (cases "read_response_body ?r")
      case (Inl e)
      then have "poll_one srv api_key j w = (Inl e, ?w1)"
        by (simp add: poll_one_def id get_status_eq nf)
      moreover have "\<forall>r. e \<noteq> HTTPError r"
        using Inl read_response_body_not_HTTPError by metis
      ultimately show ?thesis using id nf bad by blast
    next
      case body: (Inr s)
      show ?thesis
      proof (cases "subscript s ''jobStatus''")
        case (Inl e)
        then have "poll_one srv api_key j w = (Inl e, ?w1)"
          by (simp add: poll_one_def id get_status_eq nf body)
        moreover have "\<forall>r. e \<noteq> HTTPError r" using Inl subscript_not_HTTPError by metis
        ultimately show ?thesis using id nf bad by blast
      next
        case st: (Inr status)
        consider (c) "status = JStr ''complete''" | (e) "status = JStr ''error''"
          | (o) "status \<noteq> JStr ''complete''" "status \<noteq> JStr ''error''"
          by blast
        then show ?thesis
        proof cases
          case c
          then have ic: "is_complete s" by (simp add: is_complete_def st)
          from notify_job_complete_cases[of "j\<lparr>info := s\<rparr>" ?w1]
          show ?thesis
          proof (elim disjE exE conjE)
            fix e assume "notify_job_complete (j\<lparr>info := s\<rparr>) ?w1 = (Inl e, ?w1)"
              "\<forall>r. e \<noteq> HTTPError r"
            then have "poll_one srv api_key j w = (Inl e, ?w1)" "\<forall>r. e \<noteq> HTTPError r"
              by (simp_all add: poll_one_def id get_status_eq nf body st c)
            with id nf show ?thesis by (rule bad)
          next
            fix jid rows usage
            assume n: "notify_job_complete (j\<lparr>info := s\<rparr>) ?w1
                      = (Inr (), emit (Completed jid rows usage) ?w1)"
              and f: "subscript (info (j\<lparr>info := s\<rparr>)) ''jobId'' = Inr jid"
                "dict_get (info (j\<lparr>info := s\<rparr>)) ''rowsReturned'' (JNum 0) = Inr rows"
                "dict_get (info (j\<lparr>info := s\<rparr>)) ''usage'' (JNum 0) = Inr usage"
            from n have "poll_one srv api_key j w
                = (Inr (1, 0, None), emit (Completed jid rows usage) ?w1)"
              by (simp add: poll_one_def id get_status_eq nf body st c)
            with id nf body ic f show ?thesis by (intro complete) simp_all
          qed
        next
          case e
          then have ie: "is_error s" by (simp add: is_error_def st)
          from notify_job_errored_cases[of "j\<lparr>info := s\<rparr>" ?w1]
          show ?thesis
          proof (elim disjE exE conjE)
            fix e' assume "notify_job_errored (j\<lparr>info := s\<rparr>) ?w1 = (Inl e', ?w1)"
              "\<forall>r. e' \<noteq> HTTPError r"
            then have "poll_one srv api_key j w = (Inl e', ?w1)" "\<forall>r. e' \<noteq> HTTPError r"
              by (simp_all add: poll_one_def id get_status_eq nf body st e)
            with id nf show ?thesis by (rule bad)
          next
            fix jid err
            assume n: "notify_job_errored (j\<lparr>info := s\<rparr>) ?w1
                      = (Inr (), emit (Errored jid err) ?w1)"
              and f: "subscript (info (j\<lparr>info := s\<rparr>)) ''jobId'' = Inr jid"
                "subscript (info (j\<lparr>info := s\<rparr>)) ''error'' = Inr err"
            from n have "poll_one srv api_key j w
                = (Inr (0, 1, None), emit (Errored jid err) ?w1)"
              by (simp add: poll_one_def id get_status_eq nf body st e)
            with id nf body ie f show ?thesis by (intro error) simp_all
          qed
        next
          case o
          then have nt: "\<not> terminal s"
            by (simp add: terminal_def is_complete_def is_error_def st)
          from o have "poll_one srv api_key j w
              = (Inr (0, 0, Some (j\<lparr>info := s\<rparr>)), ?w1)"
            by (simp add: poll_one_def id get_status_eq nf body st)
          with id nf body nt show ?thesis by (rule other)
        qed
      qed
    qed
  qed
qed

lemma polls_append: "polls (xs @ ys) = polls xs @ polls ys"
  by (induction xs rule: polls.induct) simp_all

lemma completions_append: "completions (xs @ ys) = completions xs @ completions ys"
  by (induction xs rule: completions.induct) simp_all

lemma snapshots_append: "snapshots (xs @ ys) = snapshots xs @ snapshots ys"
  by (simp add: snapshots_def polls_append)

lemma snapshot_of_body: "read_response_body r = Inr s \<Longrightarrow> snapshot_of r = s"
  by (simp add: snapshot_of_def)

lemma completion_notice_eq:
  assumes "subscript s ''jobId'' = Inr jid"
    "dict_get s ''rowsReturned'' (JNum 0) = Inr rows"
    "dict_get s ''usage'' (JNum 0) = Inr usage"
  shows "completion_notice s = [Completed jid rows usage]"
  using assms
  by (cases s) (auto simp: completion_notice_def subscript_def dict_get_def split: option.splits)

lemma terminal_cases: "is_complete s \<Longrightarrow> terminal s" "is_error s \<Longrightarrow> terminal s"
  by (simp_all add: terminal_def)

lemma not_both: "is_complete s \<Longrightarrow> \<not> is_error s"
  by (simp add: is_complete_def is_error_def)

lemma not_terminal_D: "\<not> terminal s \<Longrightarrow> \<not> is_complete s \<and> \<not> is_error s"
  by (simp add: terminal_def)

lemma trace_send: "trace (snd (send srv c w)) = trace w @ [Request c (srv (calls w) c)]"
  by (simp add: send_eq)

lemma calls_send: "calls (snd (send srv c w)) = Suc (calls w)"
  by (simp add: send_eq)

lemma trace_emit: "trace (emit ev w) = trace w @ [ev]"
  by (simp add: emit_def)

lemma calls_emit: "calls (emit ev w) = calls w"
  by (simp add: emit_def)

text \<open>A pass that ends normally.\<close>

lemma poll_all_normal:
  assumes "poll_all srv api_key waiting cc ec behind w = (Inr (cc', ec'), rest, behind', w')"
  shows "\<exists>evs. trace w' = trace w @ evs
      \<and> calls w' = calls w + length waiting
      \<and> rest = []
      \<and> map (Inr \<circ> fst) (polls evs) = map (\<lambda>j. subscript (info j) ''jobId'') waiting
      \<and> (\<forall>p \<in> set (polls evs). \<not> failed (snd p))
      \<and> behind' = rev (requeue (zip waiting (snapshots evs))) @ behind
      \<and> cc' = cc + length (filter is_complete (snapshots evs))
      \<and> ec' = ec + length (filter is_error (snapshots evs))
      \<and> completions evs = concat (map completion_notice (filter is_complete (snapshots evs)))
      \<and> cc' = cc + length (completions evs)
      \<and> (\<forall>p \<in> set (polls evs). \<exists>i \<ge> calls w. snd p = srv i (Get api_key (fst p)))"
  using assms
proof (induction waiting arbitrary: cc ec behind w)
  case Nil
  then show ?case by (simp add: snapshots_def requeue_def)
next
  case (Cons j waiting)
  show ?case
  proof (cases rule: poll_one_cases[of j srv api_key w])
    case (no_id e)
    with Cons.prems show ?thesis by simp
  next
    case (http job_id)
    with Cons.prems show ?thesis by simp
  next
    case (bad job_id e)
    with Cons.prems show ?thesis by simp
  next
    case (complete job_id s jid rows usage)
    let ?r = "srv (calls w) (Get api_key job_id)"
    let ?w1 = "emit (Completed jid rows usage) (snd (send srv (Get api_key job_id) w))"
    let ?e1 = "[Request (Get api_key job_id) ?r, Completed jid rows usage]"
    from Cons.prems complete(8)
    have "poll_all srv api_key waiting (cc + 1) ec behind ?w1 = (Inr (cc', ec'), rest, behind', w')"
      by (simp add: put_back_def)
    from Cons.IH[OF this] obtain evs where evs:
      "trace w' = trace ?w1 @ evs" "calls w' = calls ?w1 + length waiting" "rest = []"
      "map (Inr \<circ> fst) (polls evs) = map (\<lambda>j. subscript (info j) ''jobId'') waiting"
      "\<forall>p \<in> set (polls evs). \<not> failed (snd p)"
      "behind' = rev (requeue (zip waiting (snapshots evs))) @ behind"
      "cc' = cc + 1 + length (filter is_complete (snapshots evs))"
      "ec' = ec + length (filter is_error (snapshots evs))"
      "completions evs = concat (map completion_notice (filter is_complete (snapshots evs)))"
      "cc' = cc + 1 + length (completions evs)"
      "\<forall>p \<in> set (polls evs). \<exists>i \<ge> calls ?w1. snd p = srv i (Get api_key (fst p))"
      by blast
    have sn: "snapshots (?e1 @ evs) = s # snapshots evs"
      by (simp add: snapshots_def snapshot_of_body[OF complete(3)])
    have po: "polls (?e1 @ evs) = (job_id, ?r) # polls evs" by simp
    have "trace w' = trace w @ (?e1 @ evs)"
      using evs(1) by (simp add: trace_emit trace_send)
    moreover have "calls w' = calls w + length (j # waiting)"
      using evs(2) by (simp add: calls_emit calls_send)
    moreover have "map (Inr \<circ> fst) (polls (?e1 @ evs))
        = map (\<lambda>j. subscript (info j) ''jobId'') (j # waiting)"
      unfolding po using evs(4) complete(1) by simp
    moreover have "\<forall>p \<in> set (polls (?e1 @ evs)). \<not> failed (snd p)"
      unfolding po using evs(5) complete(2) by simp
    moreover have "behind' = rev (requeue (zip (j # waiting) (snapshots (?e1 @ evs)))) @ behind"
      unfolding sn using evs(6) terminal_cases(1)[OF complete(4)] by (simp add: requeue_def)
    moreover have "cc' = cc + length (filter is_complete (snapshots (?e1 @ evs)))"
      unfolding sn using evs(7) complete(4) by simp
    moreover have "ec' = ec + length (filter is_error (snapshots (?e1 @ evs)))"
      unfolding sn using evs(8) not_both[OF complete(4)] by simp
    moreover have "completions (?e1 @ evs)
        = concat (map completion_notice (filter is_complete (snapshots (?e1 @ evs))))"
      unfolding sn using evs(9) complete(4) completion_notice_eq[OF complete(5,6,7)] by simp
    moreover have "cc' = cc + length (completions (?e1 @ evs))"
      using evs(10) by simp
    moreover have "\<forall>p \<in> set (polls (?e1 @ evs)). \<exists>i \<ge> calls w. snd p = srv i (Get api_key (fst p))"
    proof
      fix p assume "p \<in> set (polls (?e1 @ evs))"
      then consider "p = (job_id, ?r)" | "p \<in> set (polls evs)" unfolding po by auto
      then show "\<exists>i \<ge> calls w. snd p = srv i (Get api_key (fst p))"
      proof cases
        case 1
        then show ?thesis by auto
      next
        case 2
        with evs(11) obtain i where "i \<ge> calls ?w1" "snd p = srv i (Get api_key (fst p))"
          by blast
        then show ?thesis by (auto simp: calls_emit calls_send intro!: exI[of _ i])
      qed
    qed
    ultimately show ?thesis using evs(3) by blast
  next
    case (error job_id s jid err)
    let ?r = "srv (calls w) (Get api_key job_id)"
    let ?w1 = "emit (Errored jid err) (snd (send srv (Get api_key job_id) w))"
    let ?e1 = "[Request (Get api_key job_id) ?r, Errored jid err]"
    from Cons.prems error(7)
    have "poll_all srv api_key waiting cc (ec + 1) behind ?w1 = (Inr (cc', ec'), rest, behind', w')"
      by (simp add: put_back_def)
    from Cons.IH[OF this] obtain evs where evs:
      "trace w' = trace ?w1 @ evs" "calls w' = calls ?w1 + length waiting" "rest = []"
      "map (Inr \<circ> fst) (polls evs) = map (\<lambda>j. subscript (info j) ''jobId'') waiting"
      "\<forall>p \<in> set (polls evs). \<not> failed (snd p)"
      "behind' = rev (requeue (zip waiting (snapshots evs))) @ behind"
      "cc' = cc + length (filter is_complete (snapshots evs))"
      "ec' = ec + 1 + length (filter is_error (snapshots evs))"
      "completions evs = concat (map completion_notice (filter is_complete (snapshots evs)))"
      "cc' = cc + length (completions evs)"
      "\<forall>p \<in> set (polls evs). \<exists>i \<ge> calls ?w1. snd p = srv i (Get api_key (fst p))"
      by blast
    have nc: "\<not> is_complete s" using error(4) not_both by blast
    have sn: "snapshots (?e1 @ evs) = s # snapshots evs"
      by (simp add: snapshots_def snapshot_of_body[OF error(3)])
    have po: "polls (?e1 @ evs) = (job_id, ?r) # polls evs" by simp
    have "trace w' = trace w @ (?e1 @ evs)"
      using evs(1) by (simp add: trace_emit trace_send)
    moreover have "calls w' = calls w + length (j # waiting)"
      using evs(2) by (simp add: calls_emit calls_send)
    moreover have "map (Inr \<circ> fst) (polls (?e1 @ evs))
        = map (\<lambda>j. subscript (info j) ''jobId'') (j # waiting)"
      unfolding po using evs(4) error(1) by simp
    moreover have "\<forall>p \<in> set (polls (?e1 @ evs)). \<not> failed (snd p)"
      unfolding po using evs(5) error(2) by simp
    moreover have "behind' = rev (requeue (zip (j # waiting) (snapshots (?e1 @ evs)))) @ behind"
      unfolding sn using evs(6) terminal_cases(2)[OF error(4)] by (simp add: requeue_def)
    moreover have "cc' = cc + length (filter is_complete (snapshots (?e1 @ evs)))"
      unfolding sn using evs(7) nc by simp
    moreover have "ec' = ec + length (filter is_error (snapshots (?e1 @ evs)))"
      unfolding sn using evs(8) error(4) by simp
    moreover have "completions (?e1 @ evs)
        = concat (map completion_notice (filter is_complete (snapshots (?e1 @ evs))))"
      unfolding sn using evs(9) nc by simp
    moreover have "cc' = cc + length (completions (?e1 @ evs))"
      using evs(10) by simp
    moreover have "\<forall>p \<in> set (polls (?e1 @ evs)). \<exists>i \<ge> calls w. snd p = srv i (Get api_key (fst p))"
    proof
      fix p assume "p \<in> set (polls (?e1 @ evs))"
      then consider "p = (job_id, ?r)" | "p \<in> set (polls evs)" unfolding po by auto
      then show "\<exists>i \<ge> calls w. snd p = srv i (Get api_key (fst p))"
      proof cases
        case 1
        then show ?thesis by auto
      next
        case 2
        with evs(11) obtain i where "i \<ge> calls ?w1" "snd p = srv i (Get api_key (fst p))"
          by blast
        then show ?thesis by (auto simp: calls_emit calls_send intro!: exI[of _ i])
      qed
    qed
    ultimately show ?thesis using evs(3) by blast
  next
    case (other job_id s)
    let ?r = "srv (calls w) (Get api_key job_id)"
    let ?w1 = "snd (send srv (Get api_key job_id) w)"
    let ?e1 = "[Request (Get api_key job_id) ?r]"
    from Cons.prems other(5)
    have "poll_all srv api_key waiting cc ec (j\<lparr>info := s\<rparr> # behind) ?w1
            = (Inr (cc', ec'), rest, behind', w')"
      by (simp add: put_back_def appendleft_def)
    from Cons.IH[OF this] obtain evs where evs:
      "trace w' = trace ?w1 @ evs" "calls w' = calls ?w1 + length waiting" "rest = []"
      "map (Inr \<circ> fst) (polls evs) = map (\<lambda>j. subscript (info j) ''jobId'') waiting"
      "\<forall>p \<in> set (polls evs). \<not> failed (snd p)"
      "behind' = rev (requeue (zip waiting (snapshots evs))) @ j\<lparr>info := s\<rparr> # behind"
      "cc' = cc + length (filter is_complete (snapshots evs))"
      "ec' = ec + length (filter is_error (snapshots evs))"
      "completions evs = concat (map completion_notice (filter is_complete (snapshots evs)))"
      "cc' = cc + length (completions evs)"
      "\<forall>p \<in> set (polls evs). \<exists>i \<ge> calls ?w1. snd p = srv i (Get api_key (fst p))"
      by blast
    note nt = not_terminal_D[OF other(4)]
    have sn: "snapshots (?e1 @ evs) = s # snapshots evs"
      by (simp add: snapshots_def snapshot_of_body[OF other(3)])
    have po: "polls (?e1 @ evs) = (job_id, ?r) # polls evs" by simp
    have "trace w' = trace w @ (?e1 @ evs)"
      using evs(1) by (simp add: trace_send)
    moreover have "calls w' = calls w + length (j # waiting)"
      using evs(2) by (simp add: calls_send)
    moreover have "map (Inr \<circ> fst) (polls (?e1 @ evs))
        = map (\<lambda>j. subscript (info j) ''jobId'') (j # waiting)"
      unfolding po using evs(4) other(1) by simp
    moreover have "\<forall>p \<in> set (polls (?e1 @ evs)). \<not> failed (snd p)"
      unfolding po using evs(5) other(2) by simp
    moreover have "behind' = rev (requeue (zip (j # waiting) (snapshots (?e1 @ evs)))) @ behind"
      unfolding sn using evs(6) other(4) by (simp add: requeue_def)
    moreover have "cc' = cc + length (filter is_complete (snapshots (?e1 @ evs)))"
      unfolding sn using evs(7) nt by simp
    moreover have "ec' = ec + length (filter is_error (snapshots (?e1 @ evs)))"
      unfolding sn using evs(8) nt by simp
    moreover have "completions (?e1 @ evs)
        = concat (map completion_notice (filter is_complete (snapshots (?e1 @ evs))))"
      unfolding sn using evs(9) nt by simp
    moreover have "cc' = cc + length (completions (?e1 @ evs))"
      using evs(10) by simp
    moreover have "\<forall>p \<in> set (polls (?e1 @ evs)). \<exists>i \<ge> calls w. snd p = srv i (Get api_key (fst p))"
    proof
      fix p assume "p \<in> set (polls (?e1 @ evs))"
      then consider "p = (job_id, ?r)" | "p \<in> set (polls evs)" unfolding po by auto
      then show "\<exists>i \<ge> calls w. snd p = srv i (Get api_key (fst p))"
      proof cases
        case 1
        then show ?thesis by auto
      next
        case 2
        with evs(11) obtain i where "i \<ge> calls ?w1" "snd p = srv i (Get api_key (fst p))"
          by blast
        then show ?thesis by (auto simp: calls_send intro!: exI[of _ i])
      qed
    qed
    ultimately show ?thesis using evs(3) by blast
  qed
qed

lemma poll_one_Inr:
  assumes "poll_one srv api_key j w = (Inr (dc, de, q), w1)"
  shows "\<exists>job_id notices.
      subscript (info j) ''jobId'' = Inr job_id
      \<and> \<not> failed (srv (calls w) (Get api_key job_id))
      \<and> trace w1 = trace w @ Request (Get api_key job_id) (srv (calls w) (Get api_key job_id)) # notices
      \<and> polls notices = []
      \<and> (\<forall>j'. q = Some j' \<longrightarrow> \<not> terminal (info j'))"
proof (cases rule: poll_one_cases[of j srv api_key w])
  case (complete job_id s jid rows usage)
  with assms have "trace w1 = trace w @ Request (Get api_key job_id)
      (srv (calls w) (Get api_key job_id)) # [Completed jid rows usage]" "q = None"
    by (auto simp: trace_emit trace_send)
  with complete(1,2) show ?thesis by fastforce
next
  case (error job_id s jid err)
  with assms have "trace w1 = trace w @ Request (Get api_key job_id)
      (srv (calls w) (Get api_key job_id)) # [Errored jid err]" "q = None"
    by (auto simp: trace_emit trace_send)
  with error(1,2) show ?thesis by fastforce
next
  case (other job_id s)
  with assms have "trace w1 = trace w @ Request (Get api_key job_id)
      (srv (calls w) (Get api_key job_id)) # []" "q = Some (j\<lparr>info := s\<rparr>)"
    by (auto simp: trace_send)
  with other(1,2,4) show ?thesis by fastforce
qed (use assms in simp_all)

lemma poll_one_Inl:
  assumes "poll_one srv api_key j w = (Inl e, w1)"
  shows "(\<exists>job_id. subscript (info j) ''jobId'' = Inr job_id
            \<and> trace w1 = trace w @ [Request (Get api_key job_id) (srv (calls w) (Get api_key job_id))]
            \<and> (if failed (srv (calls w) (Get api_key job_id))
                then e = HTTPError (srv (calls w) (Get api_key job_id))
                else \<forall>r. e \<noteq> HTTPError r))
         \<or> (subscript (info j) ''jobId'' = Inl e \<and> w1 = w \<and> (\<forall>r. e \<noteq> HTTPError r))"
proof (cases rule: poll_one_cases[of j srv api_key w])
  case (no_id e')
  with assms show ?thesis by simp
next
  case (http job_id)
  with assms show ?thesis by (auto simp: trace_send)
next
  case (bad job_id e')
  with assms show ?thesis by (auto simp: trace_send)
qed (use assms in simp_all)

text \<open>Any pass, however it ends.\<close>

lemma poll_all_any:
  assumes "poll_all srv api_key waiting cc ec behind w = (res, rest, behind', w')"
  shows "\<exists>evs. trace w' = trace w @ evs
      \<and> length (polls evs) \<le> length waiting
      \<and> map (Inr \<circ> fst) (polls evs)
          = take (length (polls evs)) (map (\<lambda>j. subscript (info j) ''jobId'') waiting)
      \<and> (\<forall>j \<in> set behind'. j \<in> set behind \<or> \<not> terminal (info j))
      \<and> (\<exists>taken. waiting = taken @ rest)
      \<and> (\<forall>r. res = Inl (HTTPError r) \<longrightarrow>
            (\<exists>evs0 job_id. evs = evs0 @ [Request (Get api_key job_id) r] \<and> failed r
               \<and> (\<forall>p \<in> set (polls evs0). \<not> failed (snd p))
               \<and> length rest + length (polls evs) = length waiting))
      \<and> ((\<forall>r. res \<noteq> Inl (HTTPError r)) \<longrightarrow> (\<forall>p \<in> set (polls evs). \<not> failed (snd p)))"
  using assms
proof (induction waiting arbitrary: cc ec behind w)
  case Nil
  then show ?case by auto
next
  case (Cons j waiting)
  obtain r1 w1 where p: "poll_one srv api_key j w = (r1, w1)"
    by (cases "poll_one srv api_key j w")
  show ?case
  proof (cases r1)
    case (Inl e)
    with Cons.prems p have res: "res = Inl e" "rest = waiting" "behind' = behind" "w' = w1"
      by simp_all
    from poll_one_Inl[OF p[unfolded Inl]] show ?thesis
    proof (elim disjE exE conjE)
      fix job_id
      let ?r = "srv (calls w) (Get api_key job_id)"
      assume a: "subscript (info j) ''jobId'' = Inr job_id"
        "trace w1 = trace w @ [Request (Get api_key job_id) ?r]"
        "if failed ?r then e = HTTPError ?r else \<forall>r. e \<noteq> HTTPError r"
      let ?evs = "[Request (Get api_key job_id) ?r]"
      have 1: "trace w' = trace w @ ?evs" using a(2) res by simp
      have 2: "length (polls ?evs) \<le> length (j # waiting)" by simp
      have 3: "map (Inr \<circ> fst) (polls ?evs)
          = take (length (polls ?evs)) (map (\<lambda>j. subscript (info j) ''jobId'') (j # waiting))"
        using a(1) by simp
      have 4: "\<forall>j \<in> set behind'. j \<in> set behind \<or> \<not> terminal (info j)" using res by simp
      have 5: "\<exists>taken. j # waiting = taken @ rest" using res by auto
      have 6: "\<forall>r. res = Inl (HTTPError r) \<longrightarrow>
            (\<exists>evs0 job_id. ?evs = evs0 @ [Request (Get api_key job_id) r] \<and> failed r
               \<and> (\<forall>p \<in> set (polls evs0). \<not> failed (snd p))
               \<and> length rest + length (polls ?evs) = length (j # waiting))"
        using a(3) res by (auto split: if_splits)
      have 7: "(\<forall>r. res \<noteq> Inl (HTTPError r)) \<longrightarrow> (\<forall>p \<in> set (polls ?evs). \<not> failed (snd p))"
        using a(3) res by (auto split: if_splits)
      from 1 2 3 4 5 6 7 show ?thesis by blast
    next
      assume a: "subscript (info j) ''jobId'' = Inl e" "w1 = w" "\<forall>r. e \<noteq> HTTPError r"
      have 1: "trace w' = trace w @ []" using a res by simp
      have 5: "\<exists>taken. j # waiting = taken @ rest" using res by auto
      have 6: "\<forall>r. res \<noteq> Inl (HTTPError r)" using a(3) res by simp
      show ?thesis
        apply (rule exI[of _ "[]"])
        using 1 5 6 res by simp
    qed
  next
    case (Inr t)
    obtain dc de q where t: "t = (dc, de, q)" by (cases t)
    from Cons.prems p Inr t
    have rec: "poll_all srv api_key waiting (cc + dc) (ec + de) (put_back q behind) w1
                 = (res, rest, behind', w')"
      by simp
    from poll_one_Inr[OF p[unfolded Inr t]] obtain job_id notices where a:
      "subscript (info j) ''jobId'' = Inr job_id"
      "\<not> failed (srv (calls w) (Get api_key job_id))"
      "trace w1 = trace w @ Request (Get api_key job_id) (srv (calls w) (Get api_key job_id)) # notices"
      "polls notices = []"
      "\<forall>j'. q = Some j' \<longrightarrow> \<not> terminal (info j')"
      by blast
    let ?r = "srv (calls w) (Get api_key job_id)"
    let ?e1 = "Request (Get api_key job_id) ?r # notices"
    from Cons.IH[OF rec] obtain evs where evs:
      "trace w' = trace w1 @ evs"
      "length (polls evs) \<le> length waiting"
      "map (Inr \<circ> fst) (polls evs)
          = take (length (polls evs)) (map (\<lambda>j. subscript (info j) ''jobId'') waiting)"
      "\<forall>j \<in> set behind'. j \<in> set (put_back q behind) \<or> \<not> terminal (info j)"
      "\<exists>taken. waiting = taken @ rest"
      "\<forall>r. res = Inl (HTTPError r) \<longrightarrow>
            (\<exists>evs0 job_id. evs = evs0 @ [Request (Get api_key job_id) r] \<and> failed r
               \<and> (\<forall>p \<in> set (polls evs0). \<not> failed (snd p))
               \<and> length rest + length (polls evs) = length waiting)"
      "(\<forall>r. res \<noteq> Inl (HTTPError r)) \<longrightarrow> (\<forall>p \<in> set (polls evs). \<not> failed (snd p))"
      by blast
    have po: "polls (?e1 @ evs) = (job_id, ?r) # polls evs"
      using a(4) by (simp add: polls_append)
    have 1: "trace w' = trace w @ (?e1 @ evs)" using evs(1) a(3) by simp
    have 2: "length (polls (?e1 @ evs)) \<le> length (j # waiting)"
      unfolding po using evs(2) by simp
    have 3: "map (Inr \<circ> fst) (polls (?e1 @ evs))
          = take (length (polls (?e1 @ evs)))
              (map (\<lambda>j. subscript (info j) ''jobId'') (j # waiting))"
      unfolding po using evs(3) a(1) by simp
    have 4: "\<forall>j \<in> set behind'. j \<in> set behind \<or> \<not> terminal (info j)"
      using evs(4) a(5) by (auto simp: put_back_def appendleft_def split: option.splits)
    have 5: "\<exists>taken. j # waiting = taken @ rest"
      using evs(5) by (metis append_Cons)
    have 6: "\<forall>r. res = Inl (HTTPError r) \<longrightarrow>
            (\<exists>evs0 job_id. ?e1 @ evs = evs0 @ [Request (Get api_key job_id) r] \<and> failed r
               \<and> (\<forall>p \<in> set (polls evs0). \<not> failed (snd p))
               \<and> length rest + length (polls (?e1 @ evs)) = length (j # waiting))"
    proof (intro allI impI)
      fix r assume "res = Inl (HTTPError r)"
      with evs(6) obtain evs0 jid where e0: "evs = evs0 @ [Request (Get api_key jid) r]"
        "failed r" "\<forall>p \<in> set (polls evs0). \<not> failed (snd p)"
        "length rest + length (polls evs) = length waiting"
        by blast
      have "?e1 @ evs = (?e1 @ evs0) @ [Request (Get api_key jid) r]" using e0(1) by simp
      moreover have "\<forall>p \<in> set (polls (?e1 @ evs0)). \<not> failed (snd p)"
        using e0(3) a(2,4) by (simp add: polls_append)
      moreover have "length rest + length (polls (?e1 @ evs)) = length (j # waiting)"
        unfolding po using e0(4) by simp
      ultimately show "\<exists>evs0 job_id. ?e1 @ evs = evs0 @ [Request (Get api_key job_id) r]
          \<and> failed r \<and> (\<forall>p \<in> set (polls evs0). \<not> failed (snd p))
          \<and> length rest + length (polls (?e1 @ evs)) = length (j # waiting)"
        using e0(2) by blast
    qed
    have 7: "(\<forall>r. res \<noteq> Inl (HTTPError r)) \<longrightarrow>
          (\<forall>p \<in> set (polls (?e1 @ evs)). \<not> failed (snd p))"
      unfolding po using evs(7) a(2) by simp
    from 1 2 3 4 5 6 7 show ?thesis by blast
  qed
qed

lemma clean_completed_any:
  assumes "clean_completed srv api_key jobs w = (res, jobs', w')"
  shows "\<exists>evs. trace w' = trace w @ evs
      \<and> length (polls evs) \<le> length jobs
      \<and> map (Inr \<circ> fst) (polls evs)
          = take (length (polls evs)) (map (\<lambda>j. subscript (info j) ''jobId'') (rev jobs))
      \<and> (\<forall>j \<in> set jobs'. j \<in> set jobs \<or> \<not> terminal (info j))
      \<and> (\<forall>r. res = Inl (HTTPError r) \<longrightarrow>
            (\<exists>evs0 job_id requeued.
               evs = evs0 @ [Request (Get api_key job_id) r] \<and> failed r
               \<and> (\<forall>p \<in> set (polls evs0). \<not> failed (snd p))
               \<and> jobs' = requeued @ take (length jobs - length (polls evs)) jobs
               \<and> (\<forall>j \<in> set requeued. \<not> terminal (info j))))
      \<and> ((\<forall>r. res \<noteq> Inl (HTTPError r)) \<longrightarrow> (\<forall>p \<in> set (polls evs). \<not> failed (snd p)))"
proof -
  obtain rest behind' where pa:
    "poll_all srv api_key (rev jobs) 0 0 [] w = (res, rest, behind', w')"
    and j': "jobs' = behind' @ rev rest"
    using assms by (auto simp: clean_completed_poll_all split: prod.splits)
  from poll_all_any[OF pa] obtain evs where evs:
    "trace w' = trace w @ evs"
    "length (polls evs) \<le> length (rev jobs)"
    "map (Inr \<circ> fst) (polls evs)
        = take (length (polls evs)) (map (\<lambda>j. subscript (info j) ''jobId'') (rev jobs))"
    "\<forall>j \<in> set behind'. j \<in> set [] \<or> \<not> terminal (info j)"
    "\<exists>taken. rev jobs = taken @ rest"
    "\<forall>r. res = Inl (HTTPError r) \<longrightarrow>
          (\<exists>evs0 job_id. evs = evs0 @ [Request (Get api_key job_id) r] \<and> failed r
             \<and> (\<forall>p \<in> set (polls evs0). \<not> failed (snd p))
             \<and> length rest + length (polls evs) = length (rev jobs))"
    "(\<forall>r. res \<noteq> Inl (HTTPError r)) \<longrightarrow> (\<forall>p \<in> set (polls evs). \<not> failed (snd p))"
    by blast
  from evs(5) obtain taken where tk: "rev jobs = taken @ rest" ..
  then have "set (rev jobs) = set taken \<union> set rest" by (simp only: set_append)
  then have sub: "set rest \<subseteq> set jobs" by auto
  have nt: "\<forall>j \<in> set behind'. \<not> terminal (info j)" using evs(4) by simp
  have 4: "\<forall>j \<in> set jobs'. j \<in> set jobs \<or> \<not> terminal (info j)"
    using nt sub unfolding j' by auto
  have 5: "\<forall>r. res = Inl (HTTPError r) \<longrightarrow>
            (\<exists>evs0 job_id requeued.
               evs = evs0 @ [Request (Get api_key job_id) r] \<and> failed r
               \<and> (\<forall>p \<in> set (polls evs0). \<not> failed (snd p))
               \<and> jobs' = requeued @ take (length jobs - length (polls evs)) jobs
               \<and> (\<forall>j \<in> set requeued. \<not> terminal (info j)))"
  proof (intro allI impI)
    fix r assume "res = Inl (HTTPError r)"
    with evs(6) obtain evs0 job_id where e0:
      "evs = evs0 @ [Request (Get api_key job_id) r]" "failed r"
      "\<forall>p \<in> set (polls evs0). \<not> failed (snd p)"
      "length rest + length (polls evs) = length (rev jobs)"
      by blast
    from tk e0(4) have "length taken = length (polls evs)" 
      by (metis add_diff_cancel_left' add.commute length_append)
    with tk have "rest = drop (length (polls evs)) (rev jobs)" by simp
    then have "rev rest = take (length jobs - length (polls evs)) jobs"
      by (simp add: rev_drop)
    with j' have "jobs' = behind' @ take (length jobs - length (polls evs)) jobs" by simp
    with e0(1,2,3) nt show "\<exists>evs0 job_id requeued.
               evs = evs0 @ [Request (Get api_key job_id) r] \<and> failed r
               \<and> (\<forall>p \<in> set (polls evs0). \<not> failed (snd p))
               \<and> jobs' = requeued @ take (length jobs - length (polls evs)) jobs
               \<and> (\<forall>j \<in> set requeued. \<not> terminal (info j))"
      by blast
  qed
  from evs(1,2,3) 4 5 evs(7) show ?thesis by (simp only: length_rev) blast
qed

lemma clean_completed_normal:
  assumes "clean_completed srv api_key jobs w = (Inr (cc, ec), jobs', w')"
  shows "\<exists>evs. trace w' = trace w @ evs
      \<and> calls w' = calls w + length jobs
      \<and> map (Inr \<circ> fst) (polls evs) = map (\<lambda>j. subscript (info j) ''jobId'') (rev jobs)
      \<and> (\<forall>p \<in> set (polls evs). \<not> failed (snd p))
      \<and> jobs' = rev (requeue (zip (rev jobs) (snapshots evs)))
      \<and> cc = length (filter is_complete (snapshots evs))
      \<and> ec = length (filter is_error (snapshots evs))
      \<and> completions evs = concat (map completion_notice (filter is_complete (snapshots evs)))
      \<and> cc = length (completions evs)
      \<and> (\<forall>p \<in> set (polls evs). \<exists>i \<ge> calls w. snd p = srv i (Get api_key (fst p)))"
proof -
  obtain rest behind' where pa:
    "poll_all srv api_key (rev jobs) 0 0 [] w = (Inr (cc, ec), rest, behind', w')"
    and j': "jobs' = behind' @ rev rest"
    using assms by (auto simp: clean_completed_poll_all split: prod.splits)
  from poll_all_normal[OF pa] j' show ?thesis by auto
qed

text \<open>
  Claim C3. In every sweep the polls are made in first-in-first-out order, each job at
  most once: the job ids polled are an initial part of the ids of the jobs of the working
  set, read from its right (oldest) end. When the sweep returns its two counts, the polls
  are exactly those \<open>k\<close> ids, once each; the working set it leaves is, oldest first, the
  polled jobs whose status is not terminal, each with the snapshot it just got as its
  \<open>info\<close> and otherwise unchanged, so that a job put back is behind every job that was
  there and is not polled again; and the counts are the numbers of snapshots with status
  \<^verbatim>\<open>complete\<close> and \<^verbatim>\<open>error\<close>. The loop of the program and the two-list pass
  \<open>poll_all\<close> compute the same.
\<close>

theorem clean_completed_fifo:
  "clean_completed srv api_key jobs w =
     (case poll_all srv api_key (rev jobs) 0 0 [] w of
        (res, waiting, behind, w') \<Rightarrow> (res, behind @ rev waiting, w'))
   \<and> (clean_completed srv api_key jobs w = (res, jobs', w') \<longrightarrow>
        (\<exists>evs. trace w' = trace w @ evs
           \<and> map (Inr \<circ> fst) (polls evs)
               = take (length (polls evs)) (map (\<lambda>j. subscript (info j) ''jobId'') (rev jobs))
           \<and> (\<forall>cc ec. res = Inr (cc, ec) \<longrightarrow>
                 map (Inr \<circ> fst) (polls evs) = map (\<lambda>j. subscript (info j) ''jobId'') (rev jobs)
               \<and> length (polls evs) = length jobs
               \<and> jobs' = rev (requeue (zip (rev jobs) (snapshots evs)))
               \<and> cc = length (filter is_complete (snapshots evs))
               \<and> ec = length (filter is_error (snapshots evs)))))"
proof (intro conjI impI)
  show "clean_completed srv api_key jobs w =
     (case poll_all srv api_key (rev jobs) 0 0 [] w of
        (res, waiting, behind, w') \<Rightarrow> (res, behind @ rev waiting, w'))"
    by (rule clean_completed_poll_all)
next
  assume a: "clean_completed srv api_key jobs w = (res, jobs', w')"
  from clean_completed_any[OF a] obtain evs where evs:
    "trace w' = trace w @ evs"
    "map (Inr \<circ> fst) (polls evs)
        = take (length (polls evs)) (map (\<lambda>j. subscript (info j) ''jobId'') (rev jobs))"
    by (elim exE conjE) (rule that, assumption+)
  have all: "\<forall>cc ec. res = Inr (cc, ec) \<longrightarrow>
          map (Inr \<circ> fst) (polls evs) = map (\<lambda>j. subscript (info j) ''jobId'') (rev jobs)
        \<and> length (polls evs) = length jobs
        \<and> jobs' = rev (requeue (zip (rev jobs) (snapshots evs)))
        \<and> cc = length (filter is_complete (snapshots evs))
        \<and> ec = length (filter is_error (snapshots evs))"
  proof (intro allI impI)
    fix cc ec assume "res = Inr (cc, ec)"
    with a have "clean_completed srv api_key jobs w = (Inr (cc, ec), jobs', w')" by simp
    from clean_completed_normal[OF this] obtain evs' where n:
      "trace w' = trace w @ evs'"
      "map (Inr \<circ> fst) (polls evs') = map (\<lambda>j. subscript (info j) ''jobId'') (rev jobs)"
      "jobs' = rev (requeue (zip (rev jobs) (snapshots evs')))"
      "cc = length (filter is_complete (snapshots evs'))"
      "ec = length (filter is_error (snapshots evs'))"
      by (elim exE conjE) (rule that, assumption+)
    from n(1) evs(1) have same: "evs' = evs" by simp
    have "length (map (Inr \<circ> fst) (polls evs') :: (error + json) list)
          = length (map (\<lambda>j. subscript (info j) ''jobId'') (rev jobs))"
      by (simp only: n(2))
    then have len: "length (polls evs') = length jobs" by simp
    from n(2) len n(3) n(4) n(5)
    show "map (Inr \<circ> fst) (polls evs) = map (\<lambda>j. subscript (info j) ''jobId'') (rev jobs)
        \<and> length (polls evs) = length jobs
        \<and> jobs' = rev (requeue (zip (rev jobs) (snapshots evs)))
        \<and> cc = length (filter is_complete (snapshots evs))
        \<and> ec = length (filter is_error (snapshots evs))"
      unfolding same by (intro conjI)
  qed
  show "\<exists>evs. trace w' = trace w @ evs
           \<and> map (Inr \<circ> fst) (polls evs)
               = take (length (polls evs)) (map (\<lambda>j. subscript (info j) ''jobId'') (rev jobs))
           \<and> (\<forall>cc ec. res = Inr (cc, ec) \<longrightarrow>
                 map (Inr \<circ> fst) (polls evs) = map (\<lambda>j. subscript (info j) ''jobId'') (rev jobs)
               \<and> length (polls evs) = length jobs
               \<and> jobs' = rev (requeue (zip (rev jobs) (snapshots evs)))
               \<and> cc = length (filter is_complete (snapshots evs))
               \<and> ec = length (filter is_error (snapshots evs)))"
    using evs(1) evs(2) all by (intro exI[of _ evs] conjI)
qed

theorem clean_completed_fifo_witness:
  "clean_completed sample_service ''key'' sample_working_set initial_world
     = (Inr (1, 1), [sample_job 2 ''J2'' ''running''], sample_sweep_world)
   \<and> map fst (polls (trace sample_sweep_world)) = [JStr ''J1'', JStr ''J2'', JStr ''J3'']
   \<and> map (Inr \<circ> fst) (polls (trace sample_sweep_world))
       = map (\<lambda>j. subscript (info j) ''jobId'') (rev sample_working_set)
   \<and> [sample_job 2 ''J2'' ''running'']
       = rev (requeue (zip (rev sample_working_set) (snapshots (trace sample_sweep_world))))
   \<and> length (filter is_complete (snapshots (trace sample_sweep_world))) = 1
   \<and> length (filter is_error (snapshots (trace sample_sweep_world))) = 1"
proof -
  have s: "clean_completed sample_service ''key'' sample_working_set initial_world
     = (Inr (1, 1), [sample_job 2 ''J2'' ''running''], sample_sweep_world)"
    by code_simp
  have p: "map fst (polls (trace sample_sweep_world)) = [JStr ''J1'', JStr ''J2'', JStr ''J3'']"
    by code_simp
  note t = clean_completed_fifo
    [of sample_service "''key''" sample_working_set initial_world "Inr (1, 1)"
        "[sample_job 2 ''J2'' ''running'']" sample_sweep_world, THEN conjunct2, THEN mp, OF s]
  from t
  obtain evs where evs: "trace sample_sweep_world = trace initial_world @ evs"
    "\<forall>cc ec. (Inr (1, 1) :: error + nat \<times> nat) = Inr (cc, ec) \<longrightarrow>
        map (Inr \<circ> fst) (polls evs)
          = map (\<lambda>j. subscript (info j) ''jobId'') (rev sample_working_set)
      \<and> length (polls evs) = length sample_working_set
      \<and> [sample_job 2 ''J2'' ''running'']
          = rev (requeue (zip (rev sample_working_set) (snapshots evs)))
      \<and> cc = length (filter is_complete (snapshots evs))
      \<and> ec = length (filter is_error (snapshots evs))"
    by (elim exE conjE) (rule that, assumption+)
  from evs(1) have e: "evs = trace sample_sweep_world" by (simp add: initial_world_def)
  have "(Inr (1, 1) :: error + nat \<times> nat) = Inr (1, 1)" ..
  with evs(2) have c: "map (Inr \<circ> fst) (polls evs)
          = map (\<lambda>j. subscript (info j) ''jobId'') (rev sample_working_set)
      \<and> length (polls evs) = length sample_working_set
      \<and> [sample_job 2 ''J2'' ''running'']
          = rev (requeue (zip (rev sample_working_set) (snapshots evs)))
      \<and> (1::nat) = length (filter is_complete (snapshots evs))
      \<and> (1::nat) = length (filter is_error (snapshots evs))"
    by blast
  from c have f1: "map (Inr \<circ> fst) (polls (trace sample_sweep_world))
       = map (\<lambda>j. subscript (info j) ''jobId'') (rev sample_working_set)"
    unfolding e by (elim conjE)
  from c have f2: "[sample_job 2 ''J2'' ''running'']
       = rev (requeue (zip (rev sample_working_set) (snapshots (trace sample_sweep_world))))"
    unfolding e by (elim conjE)
  from c have f3: "(1::nat) = length (filter is_complete (snapshots (trace sample_sweep_world)))"
    unfolding e by (elim conjE)
  from c have f4: "(1::nat) = length (filter is_error (snapshots (trace sample_sweep_world)))"
    unfolding e by (elim conjE)
  from s p f1 f2 f3[symmetric] f4[symmetric] show ?thesis by (intro conjI)
qed

section \<open>Completion notices\<close>

lemma clean_completed_loop_complete:
  assumes "subscript (info j) ''jobId'' = Inr job_id"
    and "get_status srv api_key job_id w = (Inr (JObj kvs), w1)"
    and "map_of kvs ''jobStatus'' = Some (JStr ''complete'')"
    and "map_of kvs ''jobId'' = Some jid"
  shows "clean_completed_loop (Suc n) srv api_key cc ec (jobs @ [j]) w =
     clean_completed_loop n srv api_key (cc + 1) ec jobs
       (emit (Completed jid
                (case map_of kvs ''rowsReturned'' of Some x \<Rightarrow> x | None \<Rightarrow> JNum 0)
                (case map_of kvs ''usage'' of Some x \<Rightarrow> x | None \<Rightarrow> JNum 0)) w1)"
  using assms
  by (simp add: pop_def subscript_def notify_job_complete_def dict_get_def
      split: option.splits)

text \<open>
  Claim C8. When the job polled (the oldest of the working set) gets a snapshot with a
  job id whose status is \<^verbatim>\<open>complete\<close>, that iteration of the sweep adds one to the
  completion counter, emits the one notice \<open>Completed\<close> with the job id, the rows returned
  and the usage of the snapshot, each \<open>0\<close> when the snapshot has no such field, and does
  not put the job back. Over a sweep that returns its counts, the completion notices
  emitted are, in order, those of the snapshots with status \<^verbatim>\<open>complete\<close>, one each, and
  their number is the completion count returned.
\<close>

theorem clean_completed_completion_notice:
  "(subscript (info j) ''jobId'' = Inr job_id
      \<and> get_status srv api_key job_id w = (Inr (JObj kvs), w1)
      \<and> map_of kvs ''jobStatus'' = Some (JStr ''complete'')
      \<and> map_of kvs ''jobId'' = Some jid
    \<longrightarrow> clean_completed_loop (Suc n) srv api_key cc ec (jobs @ [j]) w =
          clean_completed_loop n srv api_key (cc + 1) ec jobs
            (emit (Completed jid
                     (case map_of kvs ''rowsReturned'' of Some x \<Rightarrow> x | None \<Rightarrow> JNum 0)
                     (case map_of kvs ''usage'' of Some x \<Rightarrow> x | None \<Rightarrow> JNum 0)) w1))
   \<and> (clean_completed srv api_key jobs w = (Inr (cc', ec'), jobs', w') \<longrightarrow>
        (\<exists>evs. trace w' = trace w @ evs
           \<and> completions evs = concat (map completion_notice (filter is_complete (snapshots evs)))
           \<and> length (completions evs) = length (filter is_complete (snapshots evs))
           \<and> cc' = length (completions evs)))"
proof (intro conjI impI)
  assume "subscript (info j) ''jobId'' = Inr job_id
      \<and> get_status srv api_key job_id w = (Inr (JObj kvs), w1)
      \<and> map_of kvs ''jobStatus'' = Some (JStr ''complete'')
      \<and> map_of kvs ''jobId'' = Some jid"
  then show "clean_completed_loop (Suc n) srv api_key cc ec (jobs @ [j]) w =
          clean_completed_loop n srv api_key (cc + 1) ec jobs
            (emit (Completed jid
                     (case map_of kvs ''rowsReturned'' of Some x \<Rightarrow> x | None \<Rightarrow> JNum 0)
                     (case map_of kvs ''usage'' of Some x \<Rightarrow> x | None \<Rightarrow> JNum 0)) w1)"
    by (intro clean_completed_loop_complete) (elim conjE, assumption)+
next
  assume a: "clean_completed srv api_key jobs w = (Inr (cc', ec'), jobs', w')"
  from clean_completed_normal[OF a] obtain evs where evs:
    "trace w' = trace w @ evs"
    "cc' = length (filter is_complete (snapshots evs))"
    "completions evs = concat (map completion_notice (filter is_complete (snapshots evs)))"
    "cc' = length (completions evs)"
    by (elim exE conjE) (rule that, assumption+)
  from evs(2,4) have "length (completions evs) = length (filter is_complete (snapshots evs))"
    by simp
  with evs(1,3,4) show "\<exists>evs. trace w' = trace w @ evs
           \<and> completions evs = concat (map completion_notice (filter is_complete (snapshots evs)))
           \<and> length (completions evs) = length (filter is_complete (snapshots evs))
           \<and> cc' = length (completions evs)"
    by (intro exI[of _ evs] conjI)
qed

theorem clean_completed_completion_notice_witness:
  "clean_completed_loop (Suc 0) sample_service ''key'' 0 0 ([] @ [sample_job 4 ''J4'' ''running''])
       initial_world
     = (Inr (1, 0), [],
        \<lparr>calls = 1,
         trace = [Request (Get ''key'' (JStr ''J4'')) (status_response ''J4'' ''complete'' []),
                  Completed (JStr ''J4'') (JNum 0) (JNum 0)]\<rparr>)
   \<and> clean_completed sample_service ''key'' sample_working_set initial_world
       = (Inr (1, 1), [sample_job 2 ''J2'' ''running''], sample_sweep_world)
   \<and> completions (trace sample_sweep_world) = [Completed (JStr ''J1'') (JNum 42) (JNum 1)]
   \<and> concat (map completion_notice (filter is_complete (snapshots (trace sample_sweep_world))))
       = [Completed (JStr ''J1'') (JNum 42) (JNum 1)]"
proof -
  let ?kvs = "[(''jobId'', JStr ''J4''), (''jobStatus'', JStr ''complete'')]"
  let ?w1 = "\<lparr>calls = 1,
         trace = [Request (Get ''key'' (JStr ''J4'')) (status_response ''J4'' ''complete'' [])]\<rparr>"
  have h1: "subscript (info (sample_job 4 ''J4'' ''running'')) ''jobId'' = Inr (JStr ''J4'')"
    by code_simp
  have h2: "get_status sample_service ''key'' (JStr ''J4'') initial_world = (Inr (JObj ?kvs), ?w1)"
    by code_simp
  have h3: "map_of ?kvs ''jobStatus'' = Some (JStr ''complete'')" by simp
  have h4: "map_of ?kvs ''jobId'' = Some (JStr ''J4'')" by simp
  note step = clean_completed_completion_notice
    [of "sample_job 4 ''J4'' ''running''" "JStr ''J4''" sample_service "''key''" initial_world
        ?kvs ?w1 "JStr ''J4''" 0 0 0 "[]", THEN conjunct1, THEN mp, OF conjI[OF h1 conjI[OF h2 conjI[OF h3 h4]]]]
  have a: "clean_completed_loop (Suc 0) sample_service ''key'' 0 0
             ([] @ [sample_job 4 ''J4'' ''running'']) initial_world
     = (Inr (1, 0), [],
        \<lparr>calls = 1,
         trace = [Request (Get ''key'' (JStr ''J4'')) (status_response ''J4'' ''complete'' []),
                  Completed (JStr ''J4'') (JNum 0) (JNum 0)]\<rparr>)"
    unfolding step by (simp add: emit_def)
  have s: "clean_completed sample_service ''key'' sample_working_set initial_world
       = (Inr (1, 1), [sample_job 2 ''J2'' ''running''], sample_sweep_world)"
    by code_simp
  have c: "completions (trace sample_sweep_world) = [Completed (JStr ''J1'') (JNum 42) (JNum 1)]"
    by code_simp
  note sw = clean_completed_completion_notice
    [of _ _ sample_service "''key''" initial_world _ _ _ _ _ _ sample_working_set 1 1
        "[sample_job 2 ''J2'' ''running'']" sample_sweep_world, THEN conjunct2, THEN mp, OF s]
  from sw obtain evs where evs: "trace sample_sweep_world = trace initial_world @ evs"
    "completions evs = concat (map completion_notice (filter is_complete (snapshots evs)))"
    by (elim exE conjE) (rule that, assumption+)
  from evs(1) have e: "evs = trace sample_sweep_world" by (simp add: initial_world_def)
  from evs(2) c have d: "concat (map completion_notice
        (filter is_complete (snapshots (trace sample_sweep_world))))
       = [Completed (JStr ''J1'') (JNum 42) (JNum 1)]"
    unfolding e by simp
  from a s c d show ?thesis by (intro conjI)
qed

section \<open>The driver, one record at a time\<close>

lemma to_request_sample_row: "to_request sample_row = Inr sample_request"
  by code_simp

lemma submit_and_sweep_Inl:
  "post_with_retry srv api_key (request j) w = Some (Inl e, w1) \<Longrightarrow>
   submit_and_sweep srv api_key j jobs w = Some (Inl e, jobs, w1)"
  by (simp add: submit_and_sweep_def)

lemma submit_and_sweep_no_id:
  "post_with_retry srv api_key (request j) w = Some (Inr job_info, w1) \<Longrightarrow>
   subscript job_info ''jobId'' = Inl e \<Longrightarrow>
   submit_and_sweep srv api_key j jobs w = Some (Inl e, jobs, w1)"
  by (simp add: submit_and_sweep_def notify_job_submitted_def)


lemma run_jobs_for_Cons:
  "to_request r = Inr req \<Longrightarrow>
   run_jobs_for srv api_key (r # rows) index count errors jobs w =
     (case submit_and_sweep srv api_key (new_job index req) jobs w of
        None \<Rightarrow> None
      | Some (Inr (new_count, new_errors), jobs1, w1) \<Rightarrow>
          run_jobs_for srv api_key rows (index + 1) (count + new_count)
            (errors + new_errors) jobs1 w1
      | Some (Inl (HTTPError resp), jobs1, w1) \<Rightarrow>
          (case handle_error resp w1 of
             (Inl e, w2) \<Rightarrow> Some (Inl e, w2)
           | (Inr _, w2) \<Rightarrow>
               run_jobs_for srv api_key rows (index + 1) count (errors + 1) jobs1 w2)
      | Some (Inl e, jobs1, w1) \<Rightarrow> Some (Inl e, w1))"
  by (simp add: new_job_def)

lemma run_jobs_for_malformed:
  "to_request r = Inl e \<Longrightarrow>
   run_jobs_for srv api_key (r # rows) index count errors jobs w = Some (Inl e, w)"
  by simp

lemma run_jobs_for_HTTPError:
  assumes "to_request r = Inr req"
    and "submit_and_sweep srv api_key (new_job index req) jobs w
           = Some (Inl (HTTPError resp), jobs1, w1)"
  shows "run_jobs_for srv api_key (r # rows) index count errors jobs w =
     (case handle_error resp w1 of
        (Inl e, w2) \<Rightarrow> Some (Inl e, w2)
      | (Inr u, w2) \<Rightarrow>
          run_jobs_for srv api_key rows (index + 1) count (errors + 1) jobs1 w2)"
  using assms by (simp add: run_jobs_for_Cons del: run_jobs_for.simps)


lemma run_jobs_for_other_error:
  assumes "to_request r = Inr req"
    and "submit_and_sweep srv api_key (new_job index req) jobs w = Some (Inl e, jobs1, w1)"
    and "\<forall>resp. e \<noteq> HTTPError resp"
  shows "run_jobs_for srv api_key (r # rows) index count errors jobs w = Some (Inl e, w1)"
  using assms by (cases e) (simp_all add: run_jobs_for_Cons del: run_jobs_for.simps)

lemma run_jobs_for_diverges:
  assumes "to_request r = Inr req"
    and "submit_and_sweep srv api_key (new_job index req) jobs w = None"
  shows "run_jobs_for srv api_key (r # rows) index count errors jobs w = None"
  using assms by (simp add: run_jobs_for_Cons del: run_jobs_for.simps)

lemma handle_error_eq:
  "handle_error r w =
     (case read_response_body r of
        Inl e \<Rightarrow> (Inl e, w)
      | Inr body \<Rightarrow> (Inr (), emit (ErrorReport (status_code r) (reason r) body) w))"
  by (simp add: handle_error_def)

lemma post_with_retry_HTTPError:
  assumes "send srv (Post api_key req) w = (r, w1)" "failed r" "status_code r \<noteq> 429"
  shows "post_with_retry srv api_key req w = Some (Inl (HTTPError r), w1)"
proof -
  from assms(2) have "raise_for_status r = Inl (HTTPError r)"
    by (simp add: failed_def raise_for_status_def split: if_splits)
  with assms(1) have "post srv api_key req w = (Inl (HTTPError r), w1)"
    by (rule post_HTTPError)
  then show ?thesis using assms(3) by (subst post_with_retry.simps) simp
qed

text \<open>
  A submission that fails. When the submission of the job of a record is answered with a
  failure status (400 to 599) other than 429, \<^verbatim>\<open>post_with_retry\<close> raises the \<^verbatim>\<open>HTTPError\<close>
  after that one exchange, without a retry; the \<^verbatim>\<open>try\<close> block ends there, with the working
  set as it was and nothing emitted but the exchange itself: no submission notice and no
  poll. The handler of the driver then calls \<^verbatim>\<open>handle_error\<close>; when the body of the
  response can be read it prints the report and the loop goes on with the next record,
  the error counter one higher and the working set still unchanged, so the job is in no
  working set and is never polled.
\<close>

theorem failed_submission_counted_and_skipped:
  "to_request r = Inr req \<and> send srv (Post api_key req) w = (resp, w1)
      \<and> failed resp \<and> status_code resp \<noteq> 429 \<longrightarrow>
     post_with_retry srv api_key req w = Some (Inl (HTTPError resp), w1)
   \<and> submit_and_sweep srv api_key (new_job index req) jobs w
       = Some (Inl (HTTPError resp), jobs, w1)
   \<and> trace w1 = trace w @ [Request (Post api_key req) resp]
   \<and> run_jobs_for srv api_key (r # rows) index count errors jobs w
       = (case handle_error resp w1 of
            (Inl e, w2) \<Rightarrow> Some (Inl e, w2)
          | (Inr u, w2) \<Rightarrow> run_jobs_for srv api_key rows (index + 1) count (errors + 1) jobs w2)
   \<and> (\<forall>body. read_response_body resp = Inr body \<longrightarrow>
         run_jobs_for srv api_key (r # rows) index count errors jobs w
         = run_jobs_for srv api_key rows (index + 1) count (errors + 1) jobs
             (emit (ErrorReport (status_code resp) (reason resp) body) w1))"
proof (intro impI)
  assume a: "to_request r = Inr req \<and> send srv (Post api_key req) w = (resp, w1)
      \<and> failed resp \<and> status_code resp \<noteq> 429"
  then have tr: "to_request r = Inr req" and s: "send srv (Post api_key req) w = (resp, w1)"
    and f: "failed resp" and n: "status_code resp \<noteq> 429"
    by simp_all
  have p: "post_with_retry srv api_key req w = Some (Inl (HTTPError resp), w1)"
    using s f n by (rule post_with_retry_HTTPError)
  have "post_with_retry srv api_key (request (new_job index req)) w
          = Some (Inl (HTTPError resp), w1)"
    using p by (simp add: new_job_def)
  then have ss: "submit_and_sweep srv api_key (new_job index req) jobs w
       = Some (Inl (HTTPError resp), jobs, w1)"
    by (rule submit_and_sweep_Inl)
  have t: "trace w1 = trace w @ [Request (Post api_key req) resp]"
    using s by (auto simp: send_eq)
  have rj: "run_jobs_for srv api_key (r # rows) index count errors jobs w
       = (case handle_error resp w1 of
            (Inl e, w2) \<Rightarrow> Some (Inl e, w2)
          | (Inr u, w2) \<Rightarrow> run_jobs_for srv api_key rows (index + 1) count (errors + 1) jobs w2)"
    using tr ss by (rule run_jobs_for_HTTPError)
  have rb: "\<forall>body. read_response_body resp = Inr body \<longrightarrow>
         run_jobs_for srv api_key (r # rows) index count errors jobs w
         = run_jobs_for srv api_key rows (index + 1) count (errors + 1) jobs
             (emit (ErrorReport (status_code resp) (reason resp) body) w1)"
    unfolding rj by (simp add: handle_error_eq)
  from p ss t rj rb show "post_with_retry srv api_key req w = Some (Inl (HTTPError resp), w1)
   \<and> submit_and_sweep srv api_key (new_job index req) jobs w
       = Some (Inl (HTTPError resp), jobs, w1)
   \<and> trace w1 = trace w @ [Request (Post api_key req) resp]
   \<and> run_jobs_for srv api_key (r # rows) index count errors jobs w
       = (case handle_error resp w1 of
            (Inl e, w2) \<Rightarrow> Some (Inl e, w2)
          | (Inr u, w2) \<Rightarrow> run_jobs_for srv api_key rows (index + 1) count (errors + 1) jobs w2)
   \<and> (\<forall>body. read_response_body resp = Inr body \<longrightarrow>
         run_jobs_for srv api_key (r # rows) index count errors jobs w
         = run_jobs_for srv api_key rows (index + 1) count (errors + 1) jobs
             (emit (ErrorReport (status_code resp) (reason resp) body) w1))"
    by (intro conjI)
qed

theorem failed_submission_counted_and_skipped_witness:
  "run_jobs_for (\<lambda>i c. failed_response 500 (PlainText ''boom'')) ''key'' [sample_row] 0 0 0 []
      initial_world
   = Some (Inr (0, 1, []),
       \<lparr>calls = 1,
        trace = [Request (Post ''key'' sample_request) (failed_response 500 (PlainText ''boom'')),
                 ErrorReport 500 ''Error'' (JStr ''boom'')]\<rparr>)"
proof -
  let ?resp = "failed_response 500 (PlainText ''boom'')"
  let ?srv = "\<lambda>(i::nat) (c::call). ?resp"
  let ?w1 = "\<lparr>calls = 1, trace = [Request (Post ''key'' sample_request) ?resp]\<rparr>"
  have h1: "to_request sample_row = Inr sample_request" by (rule to_request_sample_row)
  have h2: "send ?srv (Post ''key'' sample_request) initial_world = (?resp, ?w1)"
    by (simp add: send_eq initial_world_def)
  have h3: "failed ?resp" by (simp add: failed_def raise_for_status_def failed_response_def)
  have h4: "status_code ?resp \<noteq> 429" by (simp add: failed_response_def)
  have h5: "read_response_body ?resp = Inr (JStr ''boom'')"
    by (simp add: read_response_body_def failed_response_def)
  note t = failed_submission_counted_and_skipped
    [of sample_row sample_request ?srv "''key''" initial_world ?resp ?w1 0 "[]" "[]" 0 0,
     THEN mp, OF conjI[OF h1 conjI[OF h2 conjI[OF h3 h4]]]]
  from t have "\<forall>body. read_response_body ?resp = Inr body \<longrightarrow>
         run_jobs_for ?srv ''key'' (sample_row # []) 0 0 0 [] initial_world
         = run_jobs_for ?srv ''key'' [] (0 + 1) 0 (0 + 1) []
             (emit (ErrorReport (status_code ?resp) (reason ?resp) body) ?w1)"
    by (elim conjE)
  with h5 have "run_jobs_for ?srv ''key'' (sample_row # []) 0 0 0 [] initial_world
         = run_jobs_for ?srv ''key'' [] (0 + 1) 0 (0 + 1) []
             (emit (ErrorReport (status_code ?resp) (reason ?resp) (JStr ''boom'')) ?w1)"
    by blast
  then show ?thesis by (simp add: emit_def failed_response_def)
qed

text \<open>
  Claim C5 (a failed submission is counted as one error and processing continues with the
  next record). The program does so when the body of the failure response can be read,
  as shown above. When the body is not valid UTF-8, \<^verbatim>\<open>handle_error\<close> itself raises
  \<^verbatim>\<open>UnicodeDecodeError\<close> while it reads the body, inside the handler of the driver: on
  two records, the first answered with status 500 and such a body, the run ends with that
  exception after the one exchange, the second record is never submitted and no tally is
  printed.
\<close>

theorem undecodable_failure_body_aborts_run:
  "run_jobs (\<lambda>i c. failed_response 500 Undecodable) ''key'' [sample_row, sample_row]
      initial_world
   = Some (Inl UnicodeDecodeError,
       \<lparr>calls = 1,
        trace = [Request (Post ''key'' sample_request) (failed_response 500 Undecodable)]\<rparr>)"
proof -
  let ?resp = "failed_response 500 Undecodable"
  let ?srv = "\<lambda>(i::nat) (c::call). ?resp"
  let ?w1 = "\<lparr>calls = 1, trace = [Request (Post ''key'' sample_request) ?resp]\<rparr>"
  have h2: "send ?srv (Post ''key'' sample_request) initial_world = (?resp, ?w1)"
    by (simp add: send_eq initial_world_def)
  have h3: "failed ?resp" by (simp add: failed_def raise_for_status_def failed_response_def)
  have h4: "status_code ?resp \<noteq> 429" by (simp add: failed_response_def)
  have p: "post_with_retry ?srv ''key'' sample_request initial_world
             = Some (Inl (HTTPError ?resp), ?w1)"
    using h2 h3 h4 by (rule post_with_retry_HTTPError)
  then have "post_with_retry ?srv ''key'' (request (new_job 0 sample_request)) initial_world
             = Some (Inl (HTTPError ?resp), ?w1)"
    by (simp add: new_job_def)
  then have ss: "submit_and_sweep ?srv ''key'' (new_job 0 sample_request) [] initial_world
       = Some (Inl (HTTPError ?resp), [], ?w1)"
    by (rule submit_and_sweep_Inl)
  have h: "handle_error ?resp ?w1 = (Inl UnicodeDecodeError, ?w1)"
    by (simp add: handle_error_eq read_response_body_def failed_response_def)
  have "run_jobs_for ?srv ''key'' (sample_row # [sample_row]) 0 0 0 [] initial_world
       = Some (Inl UnicodeDecodeError, ?w1)"
    unfolding run_jobs_for_HTTPError[OF to_request_sample_row ss] h by simp
  then show ?thesis by (simp add: run_jobs_def)
qed

section \<open>A poll that fails\<close>


lemma run_jobs_while_step:
  "jobs \<noteq> [] \<Longrightarrow>
   run_jobs_while srv api_key count errors jobs w =
     (case clean_completed srv api_key jobs w of
        (Inl e, jobs1, w1) \<Rightarrow> Some (Inl e, w1)
      | (Inr (new_count, new_errors), jobs1, w1) \<Rightarrow>
          run_jobs_while srv api_key (count + new_count) (errors + new_errors) jobs1
            (emit (Sleep 10) w1))"
  by (subst run_jobs_while.simps) simp


lemma run_jobs_while_Inr:
  "jobs \<noteq> [] \<Longrightarrow> clean_completed srv api_key jobs w = (Inr (new_count, new_errors), jobs1, w1) \<Longrightarrow>
   run_jobs_while srv api_key count errors jobs w =
     run_jobs_while srv api_key (count + new_count) (errors + new_errors) jobs1
       (emit (Sleep 10) w1)"
  by (simp add: run_jobs_while_step)








lemma run_jobs_Inr:
  "run_jobs_for srv api_key rows 0 0 0 [] w0 = Some (Inr (count, errors, jobs), w) \<Longrightarrow>
   run_jobs_while srv api_key count errors jobs w = Some (Inr (count', errors'), w') \<Longrightarrow>
   run_jobs srv api_key rows w0
     = Some (Inr (count', errors'), emit (Tally (count' + errors') errors') w')"
  by (simp add: run_jobs_def)





end
